theory Spec2Isabelle
  imports Complex_Main
begin

section \<open>Floating-point values of the data frames\<close>

text \<open>
  The price table and every derived series hold float64 values. The model keeps the
  special values of IEEE 754 apart (not-a-number and the two infinities), because the
  program's handling of missing data rests on them, and takes a finite value as the real
  number it stands for. Rounding, overflow of finite results and the sign of zero are not
  modelled: a zero divisor counts as positive zero.
\<close>

datatype pyfloat = NaN | PInf | NInf | Fin real

fun isnan :: "pyfloat \<Rightarrow> bool" where
  "isnan NaN = True"
| "isnan _ = False"

fun isinf :: "pyfloat \<Rightarrow> bool" where
  "isinf PInf = True"
| "isinf NInf = True"
| "isinf _ = False"

fun isfinite :: "pyfloat \<Rightarrow> bool" where
  "isfinite (Fin _) = True"
| "isfinite _ = False"

fun val :: "pyfloat \<Rightarrow> real" where
  "val (Fin x) = x"
| "val _ = 0"

fun fneg :: "pyfloat \<Rightarrow> pyfloat" where
  "fneg NaN = NaN"
| "fneg PInf = NInf"
| "fneg NInf = PInf"
| "fneg (Fin x) = Fin (- x)"

fun fadd :: "pyfloat \<Rightarrow> pyfloat \<Rightarrow> pyfloat" where
  "fadd NaN _ = NaN"
| "fadd _ NaN = NaN"
| "fadd PInf NInf = NaN"
| "fadd NInf PInf = NaN"
| "fadd PInf _ = PInf"
| "fadd _ PInf = PInf"
| "fadd NInf _ = NInf"
| "fadd _ NInf = NInf"
| "fadd (Fin a) (Fin b) = Fin (a + b)"

definition fsub :: "pyfloat \<Rightarrow> pyfloat \<Rightarrow> pyfloat" where
  "fsub a b = fadd a (fneg b)"

text \<open>The infinity with the sign of a non-zero real, and of positive zero.\<close>

definition inf_signed :: "bool \<Rightarrow> pyfloat" where
  "inf_signed positive = (if positive then PInf else NInf)"

fun fmul :: "pyfloat \<Rightarrow> pyfloat \<Rightarrow> pyfloat" where
  "fmul NaN _ = NaN"
| "fmul _ NaN = NaN"
| "fmul PInf PInf = PInf"
| "fmul PInf NInf = NInf"
| "fmul NInf PInf = NInf"
| "fmul NInf NInf = PInf"
| "fmul PInf (Fin b) = (if b = 0 then NaN else inf_signed (0 < b))"
| "fmul NInf (Fin b) = (if b = 0 then NaN else inf_signed (b < 0))"
| "fmul (Fin a) PInf = (if a = 0 then NaN else inf_signed (0 < a))"
| "fmul (Fin a) NInf = (if a = 0 then NaN else inf_signed (a < 0))"
| "fmul (Fin a) (Fin b) = Fin (a * b)"

fun fdiv :: "pyfloat \<Rightarrow> pyfloat \<Rightarrow> pyfloat" where
  "fdiv NaN _ = NaN"
| "fdiv _ NaN = NaN"
| "fdiv PInf (Fin b) = inf_signed (0 \<le> b)"
| "fdiv NInf (Fin b) = inf_signed (b < 0)"
| "fdiv (Fin a) (Fin b) =
     (if b = 0 then (if a = 0 then NaN else inf_signed (0 < a)) else Fin (a / b))"
| "fdiv (Fin a) _ = Fin 0"
| "fdiv _ _ = NaN"

fun fsqrt :: "pyfloat \<Rightarrow> pyfloat" where
  "fsqrt NaN = NaN"
| "fsqrt PInf = PInf"
| "fsqrt NInf = NaN"
| "fsqrt (Fin x) = (if x < 0 then NaN else Fin (sqrt x))"

text \<open>The comparison \<open><\<close> of two floats: false as soon as one side is not a number.\<close>

fun fless :: "pyfloat \<Rightarrow> pyfloat \<Rightarrow> bool" where
  "fless NaN _ = False"
| "fless _ NaN = False"
| "fless PInf _ = False"
| "fless _ PInf = True"
| "fless _ NInf = False"
| "fless NInf _ = True"
| "fless (Fin a) (Fin b) = (a < b)"

section \<open>Series and data frames\<close>

text \<open>
  A pandas Series is the list of its values along the date axis; a DataFrame is the list
  of its named columns, in column order. All columns of one frame share the date axis.
\<close>

type_synonym series = "pyfloat list"
type_synonym dataframe = "(string \<times> series) list"

text \<open>\<open>np.sum\<close> of a Series is \<open>Series.sum()\<close>, which skips not-a-number entries.\<close>

definition series_sum :: "series \<Rightarrow> pyfloat" where
  "series_sum xs = foldl fadd (Fin 0) (filter (\<lambda>v. \<not> isnan v) xs)"

text \<open>\<open>data.div(benchmark, axis=0)\<close> and \<open>a / b\<close> on one column: elementwise along the dates.\<close>

definition series_div :: "series \<Rightarrow> series \<Rightarrow> series" where
  "series_div xs ys = map2 fdiv xs ys"

definition series_scale :: "series \<Rightarrow> real \<Rightarrow> series" where
  "series_scale xs c = map (\<lambda>v. fmul v (Fin c)) xs"

text \<open>
  \<open>rolling(window, center=False).apply(func)\<close> on one column. pandas first replaces
  infinite entries by not-a-number; \<open>min_periods\<close> defaults to the window, so \<open>func\<close>
  runs on the window ending at a date only when it holds \<open>window\<close> entries that are
  numbers, and the result is not-a-number otherwise.
\<close>

definition prep_values :: "series \<Rightarrow> series" where
  "prep_values xs = map (\<lambda>v. if isinf v then NaN else v) xs"

definition window_at :: "nat \<Rightarrow> series \<Rightarrow> nat \<Rightarrow> series" where
  "window_at window vs i = (let start = i + 1 - window in take (i + 1 - start) (drop start vs))"

definition rolling_apply :: "nat \<Rightarrow> (series \<Rightarrow> pyfloat) \<Rightarrow> series \<Rightarrow> series" where
  "rolling_apply window func xs =
     (let vs = prep_values xs in
      map (\<lambda>i. let x = window_at window vs i in
                if window \<le> length (filter (\<lambda>v. \<not> isnan v) x) then func x else NaN)
          [0..<length xs])"

section \<open>The indicator engine\<close>

text \<open>
  \<open>np.arange(1, length + 1)\<close>, and the function handed to \<open>apply\<close>. The rolling
  window calls it on full windows only, so the window and the weights have the same
  length whenever it runs.
\<close>

definition arange1 :: "nat \<Rightarrow> nat list" where
  "arange1 len = [1..<len + 1]"

definition wma_func :: "nat \<Rightarrow> series \<Rightarrow> pyfloat" where
  "wma_func len x =
     fdiv (series_sum (map2 fmul x (map (\<lambda>k. Fin (real k)) (arange1 len))))
          (Fin (real (sum_list (arange1 len))))"

definition rs_col :: "series \<Rightarrow> series \<Rightarrow> series" where
  "rs_col col benchmark = series_div col benchmark"

definition wma_rs_col :: "series \<Rightarrow> series \<Rightarrow> nat \<Rightarrow> series" where
  "wma_rs_col col benchmark len =
     rolling_apply len (wma_func len) (rs_col col benchmark)"

definition rs_ratio_col :: "series \<Rightarrow> series \<Rightarrow> nat \<Rightarrow> series" where
  "rs_ratio_col col benchmark len =
     series_scale
       (rolling_apply len (wma_func len)
          (series_div (rs_col col benchmark) (wma_rs_col col benchmark len)))
       100"

definition rs_momentum_col :: "series \<Rightarrow> series \<Rightarrow> nat \<Rightarrow> series" where
  "rs_momentum_col col benchmark len =
     (let rs_ratio = rs_ratio_col col benchmark len in
      series_scale
        (series_div rs_ratio (rolling_apply len (wma_func len) rs_ratio))
        100)"

definition calculate_rrg_components_improved ::
    "dataframe \<Rightarrow> series \<Rightarrow> nat \<Rightarrow> dataframe \<times> dataframe" where
  "calculate_rrg_components_improved data benchmark len =
     (map (\<lambda>(ticker, col). (ticker, rs_ratio_col col benchmark len)) data,
      map (\<lambda>(ticker, col). (ticker, rs_momentum_col col benchmark len)) data)"

text \<open>
  The reference definition of the two indicators, in the specification's words. A series
  is read as a function of the date index. The raw ratio is the equity price divided by
  the benchmark price, undefined where the benchmark price is zero or undefined. The
  linearly weighted moving average over a window of \<open>w\<close> dates gives weight \<open>i\<close> to the
  \<open>i\<close>-th oldest point of the window (counting from 1) and returns the weighted sum over
  the sum of the weights; it is undefined while the window is not yet full or holds a
  value that is not a finite number.
\<close>

definition spec_raw_ratio :: "series \<Rightarrow> series \<Rightarrow> nat \<Rightarrow> pyfloat" where
  "spec_raw_ratio equity benchmark t =
     (if isnan (benchmark ! t) \<or> benchmark ! t = Fin 0 then NaN
      else fdiv (equity ! t) (benchmark ! t))"

definition spec_lwma :: "nat \<Rightarrow> (nat \<Rightarrow> pyfloat) \<Rightarrow> nat \<Rightarrow> pyfloat" where
  "spec_lwma w x t =
     (if t + 1 < w \<or> (\<exists>i\<in>{1..w}. \<not> isfinite (x (t + i - w))) then NaN
      else Fin ((\<Sum>i = 1..w. real i * val (x (t + i - w))) / (\<Sum>i = 1..w. real i)))"

definition spec_rs_ratio :: "nat \<Rightarrow> series \<Rightarrow> series \<Rightarrow> nat \<Rightarrow> pyfloat" where
  "spec_rs_ratio w equity benchmark t =
     fmul (spec_lwma w
             (\<lambda>s. fdiv (spec_raw_ratio equity benchmark s)
                        (spec_lwma w (spec_raw_ratio equity benchmark) s)) t)
          (Fin 100)"

definition spec_rs_momentum :: "nat \<Rightarrow> series \<Rightarrow> series \<Rightarrow> nat \<Rightarrow> pyfloat" where
  "spec_rs_momentum w equity benchmark t =
     fmul (fdiv (spec_rs_ratio w equity benchmark t)
                (spec_lwma w (spec_rs_ratio w equity benchmark) t))
          (Fin 100)"

text \<open>Prices of a ticker and its benchmark that are all defined, finite and positive.\<close>

definition valid_prices :: "series \<Rightarrow> series \<Rightarrow> bool" where
  "valid_prices col benchmark \<longleftrightarrow>
     length col = length benchmark \<and>
     (\<forall>v\<in>set col. isfinite v \<and> 0 < val v) \<and> (\<forall>v\<in>set benchmark. isfinite v \<and> 0 < val v)"

text \<open>
  A series that is not-a-number before the index \<open>k\<close> and a positive finite number from
  \<open>k\<close> on: the shape of every series the engine derives from valid prices.
\<close>

definition positive_from :: "nat \<Rightarrow> series \<Rightarrow> bool" where
  "positive_from k xs \<longleftrightarrow>
     (\<forall>i<length xs. if i < k then xs ! i = NaN else isfinite (xs ! i) \<and> 0 < val (xs ! i))"

text \<open>
  The synthetic scenario of the specification: forty days of the prices 100, 101, ...,
  139 against a benchmark that stays at 100.
\<close>

definition rising_prices :: series where
  "rising_prices = map (\<lambda>d. Fin (real d)) [100..<140]"

definition flat_benchmark :: series where
  "flat_benchmark = replicate 40 (Fin 100)"

section \<open>The normalizer\<close>

text \<open>
  \<open>Series.mean()\<close> and \<open>Series.std()\<close> skip not-a-number entries (infinite ones
  count); \<open>std\<close> divides by the count less one and is not-a-number for fewer than two
  values. \<open>normalize_data\<close> works on each column of a frame by itself.

  The sums, quotients and roots are exact here, while the program rounds each of them:
  the float mean of 0.1, 0.1, 0.1 is 0.10000000000000002. What is proved below holds
  up to that rounding and only for a standard deviation other than zero; whether a
  deviation or a standard deviation comes out as exactly zero is decided by the rounding
  and is outside this model.
\<close>

definition series_mean :: "series \<Rightarrow> pyfloat" where
  "series_mean xs =
     (let vs = filter (\<lambda>v. \<not> isnan v) xs in
      if vs = [] then NaN else fdiv (foldl fadd (Fin 0) vs) (Fin (real (length vs))))"

definition series_std :: "series \<Rightarrow> pyfloat" where
  "series_std xs =
     (let vs = filter (\<lambda>v. \<not> isnan v) xs; count = length vs in
      if count \<le> 1 then NaN
      else let avg = fdiv (foldl fadd (Fin 0) vs) (Fin (real count));
               sqr = map (\<lambda>v. fmul (fsub avg v) (fsub avg v)) vs
           in fsqrt (fdiv (foldl fadd (Fin 0) sqr) (Fin (real (count - 1)))))"

definition normalize_data_col :: "series \<Rightarrow> series" where
  "normalize_data_col xs = map (\<lambda>v. fdiv (fsub v (series_mean xs)) (series_std xs)) xs"

definition normalize_data :: "dataframe \<Rightarrow> dataframe" where
  "normalize_data data = map (\<lambda>(ticker, col). (ticker, normalize_data_col col)) data"




section \<open>The plot builder\<close>

datatype py_error = FetchError | KeyError | IndexError

text \<open>
  \<open>xs.iloc[start:]\<close> and \<open>xs.iloc[i]\<close>: a negative position counts from the end; the
  slice clips to the series, the single position raises when it is out of bounds.
\<close>

definition iloc_from :: "int \<Rightarrow> 'a list \<Rightarrow> 'a list" where
  "iloc_from start xs =
     (let n = int (length xs);
          s = (if start < 0 then max (n + start) 0 else min start n)
      in drop (nat s) xs)"

definition iloc_at :: "int \<Rightarrow> 'a list \<Rightarrow> py_error + 'a" where
  "iloc_at i xs =
     (let pos = (if i < 0 then i + int (length xs) else i)
      in if pos < 0 \<or> int (length xs) \<le> pos then Inl IndexError else Inr (xs ! nat pos))"

record figure =
  trail_x :: series
  trail_y :: series
  marker_x :: pyfloat
  marker_y :: pyfloat
  marker_name :: string
  shapes :: "(int \<times> int \<times> int \<times> int) list"
  title :: string

definition create_rrg_plot :: "series \<Rightarrow> series \<Rightarrow> string \<Rightarrow> int \<Rightarrow> py_error + figure" where
  "create_rrg_plot normalized_rs_ratio normalized_rs_momentum ticker trail_length =
     (let tx = iloc_from (- trail_length * 5) normalized_rs_ratio;
          ty = iloc_from (- trail_length * 5) normalized_rs_momentum
      in case iloc_at (- 1) normalized_rs_ratio of
           Inl e \<Rightarrow> Inl e
         | Inr mx \<Rightarrow>
             (case iloc_at (- 1) normalized_rs_momentum of
                Inl e \<Rightarrow> Inl e
              | Inr my \<Rightarrow>
                  Inr \<lparr>trail_x = tx, trail_y = ty, marker_x = mx, marker_y = my,
                       marker_name = ticker,
                       shapes = [(0, - 6, 0, 6), (- 6, 0, 6, 0)],
                       title = ''RRG for '' @ ticker\<rparr>))"

section \<open>The dashboard\<close>

text \<open>
  Strings are lists of the characters with code points below 256. \<open>str.strip()\<close> removes
  the characters for which \<open>str.isspace\<close> holds from both ends; \<open>str.split('\n')\<close> cuts at
  every line feed and keeps empty pieces.
\<close>

definition py_isspace :: "char \<Rightarrow> bool" where
  "py_isspace c \<longleftrightarrow>
     (of_char c :: nat) \<in> {9, 10, 11, 12, 13, 28, 29, 30, 31, 32, 133, 160}"

definition strip :: "string \<Rightarrow> string" where
  "strip s = rev (dropWhile py_isspace (rev (dropWhile py_isspace s)))"

fun split_nl :: "string \<Rightarrow> string list" where
  "split_nl [] = [[]]"
| "split_nl (c # cs) =
     (if c = CHR 0x0A then [] # split_nl cs
      else (case split_nl cs of [] \<Rightarrow> [[c]] | l # ls \<Rightarrow> (c # l) # ls))"

text \<open>The list comprehension that reads the tickers off the text area.\<close>

definition equity_tickers :: "string \<Rightarrow> string list" where
  "equity_tickers equity_input =
     map strip (filter (\<lambda>ticker. strip ticker \<noteq> []) (split_nl equity_input))"

record inputs =
  equity_input :: string
  benchmark_index :: string
  start_date :: int
  end_date :: int
  trail_length :: int
  button_IT :: bool
  button_Banks :: bool
  button_Auto :: bool
  button_Energy :: bool

definition preset_IT :: string where
  "preset_IT =
     ''TCS.NS\<newline>INFY.NS\<newline>HCLTECH.NS\<newline>WIPRO.NS\<newline>'' @
     ''LTIM.NS\<newline>TECHM.NS\<newline>OFSS.NS\<newline>PERSISTENT.NS\<newline>'' @
     ''MPHASIS.NS\<newline>KPITTECH.NS\<newline>COFORGE.NS''"

definition preset_Banks :: string where
  "preset_Banks =
     ''HDFCBANK.NS\<newline>ICICIBANK.NS\<newline>SBIN.NS\<newline>KOTAKBANK.NS\<newline>'' @
     ''AXISBANK.NS\<newline>PNB.NS\<newline>BANKBARODA.NS\<newline>INDUSINDBK.NS\<newline>'' @
     ''IOB.BO\<newline>INDIANB.NS\<newline>YESBANK.NS''"

definition preset_Auto :: string where
  "preset_Auto =
     ''MARUTI.NS\<newline>TATAMOTORS.NS\<newline>M&M.NS\<newline>BAJAJ-AUTO.NS\<newline>'' @
     ''EICHERMOT.NS\<newline>TVSMOTOR.NS\<newline>BOSCHLTD.NS\<newline>HEROMOTOCO.NS\<newline>'' @
     ''MOTHERSON.BO\<newline>TIINDIA.BO\<newline>ASHOKLEY.NS''"

definition preset_Energy :: string where
  "preset_Energy =
     ''RELIANCE.NS\<newline>ONGC.NS\<newline>NTPC.NS\<newline>ADANIGREEN.NS\<newline>'' @
     ''POWERGRID.NS\<newline>ADANIPOWER.NS\<newline>IOC.NS\<newline>TATAPOWER.NS\<newline>'' @
     ''GAIL.NS\<newline>BPCL.NS\<newline>ADANIENSOL.NS\<newline>JSWENERGY.NS\<newline>'' @
     ''NHPC.NS''"

text \<open>The four preset buttons, tested in turn: a pressed one overwrites both fields.\<close>

definition apply_presets :: "inputs \<Rightarrow> string \<times> string" where
  "apply_presets inp =
     (let eb = (equity_input inp, benchmark_index inp);
          eb = (if button_IT inp then (preset_IT, ''^CNXIT'') else eb);
          eb = (if button_Banks inp then (preset_Banks, ''^NSEBANK'') else eb);
          eb = (if button_Auto inp then (preset_Auto, ''^CNXAUTO'') else eb);
          eb = (if button_Energy inp then (preset_Energy, ''^CNXENERGY'') else eb)
      in eb)"

text \<open>
  What one run puts on the page: the \<open>st.text\<close> line, the \<open>st.error\<close> messages, the
  requests made to the price provider, the charts with the grid column of each, and the
  exception that ended the run, if any.
\<close>

record page =
  texts :: "string list"
  errors :: "string list"
  downloads :: "(string list \<times> int \<times> int) list"
  charts :: "(nat \<times> figure) list"
  raised :: "py_error option"

text \<open>\<open>frame[name]\<close> and \<open>frame[names]\<close>: a missing column raises.\<close>

definition column :: "dataframe \<Rightarrow> string \<Rightarrow> py_error + series" where
  "column data name = (case map_of data name of None \<Rightarrow> Inl KeyError | Some col \<Rightarrow> Inr col)"

fun columns :: "dataframe \<Rightarrow> string list \<Rightarrow> py_error + dataframe" where
  "columns data [] = Inr []"
| "columns data (name # names) =
     (case column data name of
        Inl e \<Rightarrow> Inl e
      | Inr col \<Rightarrow>
          (case columns data names of Inl e \<Rightarrow> Inl e | Inr rest \<Rightarrow> Inr ((name, col) # rest)))"

text \<open>The loop over \<open>enumerate(equity)\<close>: one chart per ticker, in the column \<open>i % 2\<close>.\<close>

fun plot_all :: "dataframe \<Rightarrow> dataframe \<Rightarrow> int \<Rightarrow> (nat \<times> string) list \<Rightarrow> page \<Rightarrow> page" where
  "plot_all normalized_rs_ratio normalized_rs_momentum trail [] pg = pg"
| "plot_all normalized_rs_ratio normalized_rs_momentum trail ((i, ticker) # rest) pg =
     (case column normalized_rs_ratio ticker of
        Inl e \<Rightarrow> pg\<lparr>raised := Some e\<rparr>
      | Inr r \<Rightarrow>
          (case column normalized_rs_momentum ticker of
             Inl e \<Rightarrow> pg\<lparr>raised := Some e\<rparr>
           | Inr m \<Rightarrow>
               (case create_rrg_plot r m ticker trail of
                  Inl e \<Rightarrow> pg\<lparr>raised := Some e\<rparr>
                | Inr fig \<Rightarrow>
                    plot_all normalized_rs_ratio normalized_rs_momentum trail rest
                      (pg\<lparr>charts := charts pg @ [(i mod 2, fig)]\<rparr>))))"

text \<open>
  The valid branch of \<open>main\<close>. The price provider is a parameter: it answers a request
  with a frame or fails.
\<close>

definition render ::
    "(string list \<Rightarrow> int \<Rightarrow> int \<Rightarrow> py_error + dataframe) \<Rightarrow>
     string list \<Rightarrow> string \<Rightarrow> inputs \<Rightarrow> page \<Rightarrow> page" where
  "render download_data equity benchmark inp pg =
     (let tickers = equity @ [benchmark];
          pg = pg\<lparr>downloads := downloads pg @ [(tickers, start_date inp, end_date inp)]\<rparr>
      in case download_data tickers (start_date inp) (end_date inp) of
           Inl e \<Rightarrow> pg\<lparr>raised := Some e\<rparr>
         | Inr data \<Rightarrow>
             (case columns data equity of
                Inl e \<Rightarrow> pg\<lparr>raised := Some e\<rparr>
              | Inr equity_data \<Rightarrow>
                  (case column data benchmark of
                     Inl e \<Rightarrow> pg\<lparr>raised := Some e\<rparr>
                   | Inr benchmark_data \<Rightarrow>
                       (let (rs_ratio, rs_momentum) =
                              calculate_rrg_components_improved equity_data benchmark_data 14;
                            normalized_rs_ratio = normalize_data rs_ratio;
                            normalized_rs_momentum = normalize_data rs_momentum
                        in plot_all normalized_rs_ratio normalized_rs_momentum (trail_length inp)
                             (zip [0..<length equity] equity) pg))))"

definition main ::
    "(string list \<Rightarrow> int \<Rightarrow> int \<Rightarrow> py_error + dataframe) \<Rightarrow> inputs \<Rightarrow> page" where
  "main download_data inp =
     (let (equity_text, benchmark) = apply_presets inp;
          equity = equity_tickers equity_text;
          pg = \<lparr>texts = [''VS '' @ benchmark], errors = [], downloads = [], charts = [],
                raised = None\<rparr>
      in if start_date inp < end_date inp \<and> equity \<noteq> [] \<and> benchmark \<noteq> []
         then render download_data equity benchmark inp pg
         else pg\<lparr>errors :=
                (if start_date inp \<ge> end_date inp
                 then [''Error: End date must be after start date.''] else []) @
                (if equity = []
                 then [''Error: Please enter at least one equity ticker.''] else []) @
                (if benchmark = []
                 then [''Error: Please enter a benchmark index ticker.''] else [])\<rparr>)"

text \<open>
  The validation as the specification words it: the three conditions of a valid input,
  and the messages of the conditions that are violated, one each, in page order.
\<close>

definition valid_inputs :: "inputs \<Rightarrow> bool" where
  "valid_inputs inp \<longleftrightarrow>
     start_date inp < end_date inp \<and>
     equity_tickers (fst (apply_presets inp)) \<noteq> [] \<and>
     snd (apply_presets inp) \<noteq> []"

definition validation_messages :: "inputs \<Rightarrow> string list" where
  "validation_messages inp =
     (if start_date inp < end_date inp then []
      else [''Error: End date must be after start date.'']) @
     (if equity_tickers (fst (apply_presets inp)) \<noteq> [] then []
      else [''Error: Please enter at least one equity ticker.'']) @
     (if snd (apply_presets inp) \<noteq> [] then []
      else [''Error: Please enter a benchmark index ticker.''])"

text \<open>The scenario of the specification: two tickers, a benchmark, the dates reversed.\<close>

definition reversed_dates_input :: inputs where
  "reversed_dates_input =
     \<lparr>equity_input = ''AAA\<newline>BBB'', benchmark_index = ''CCC'',
      start_date = 20, end_date = 10, trail_length = 6,
      button_IT = False, button_Banks = False, button_Auto = False, button_Energy = False\<rparr>"

text \<open>A text area that holds blank lines only: a space, an empty line, a tab.\<close>

definition blank_lines_input :: inputs where
  "blank_lines_input =
     \<lparr>equity_input = [CHR '' '', CHR 0x0A, CHR 0x0A, CHR 0x09], benchmark_index = ''CCC'',
      start_date = 10, end_date = 20, trail_length = 6,
      button_IT = False, button_Banks = False, button_Auto = False, button_Energy = False\<rparr>"

text \<open>
  \<open>'\n'.join(lines)\<close>, the inverse of the split, and a text area whose two tickers
  stand among blanks: a leading space, an empty line, a tab, a trailing space.
\<close>

fun join_nl :: "string list \<Rightarrow> string" where
  "join_nl [] = []"
| "join_nl [l] = l"
| "join_nl (l # m # ls) = l @ CHR 0x0A # join_nl (m # ls)"

definition padded_tickers_input :: inputs where
  "padded_tickers_input =
     \<lparr>equity_input = '' AAA'' @ [CHR 0x0A, CHR 0x0A, CHR 0x09] @ ''BBB '',
      benchmark_index = ''CCC'', start_date = 10, end_date = 20, trail_length = 6,
      button_IT = False, button_Banks = False, button_Auto = False, button_Energy = False\<rparr>"

definition no_provider :: "string list \<Rightarrow> int \<Rightarrow> int \<Rightarrow> py_error + dataframe" where
  "no_provider tickers start_day end_day = Inl FetchError"

section \<open>Basic facts\<close>

lemma length_rolling_apply: "length (rolling_apply w f xs) = length xs"
  by (simp add: rolling_apply_def)


lemma foldl_fadd_Fin: "foldl fadd (Fin a) (map Fin ys) = Fin (a + sum_list ys)"
  by (induction ys arbitrary: a) (simp_all add: add.assoc)

lemma take_drop_nth: "m + n \<le> length xs \<Longrightarrow> take n (drop m xs) = map ((!) xs) [m..<m + n]"
  by (auto intro!: nth_equalityI)

lemma isfinite_conv: "isfinite v \<longleftrightarrow> v = Fin (val v)"
  by (cases v) simp_all

lemma isnan_conv: "isnan v \<longleftrightarrow> v = NaN"
  by (cases v) simp_all

lemma series_sum_Fin: "series_sum (map Fin ys) = Fin (sum_list ys)"
  by (simp add: series_sum_def filter_map o_def foldl_fadd_Fin)

lemma map2_fmul_Fin:
  "map2 fmul (map Fin rs) (map (\<lambda>k. Fin (real k)) ks) = map Fin (map2 (\<lambda>r k. r * real k) rs ks)"
proof (induction rs arbitrary: ks)
  case Nil
  show ?case by simp
next
  case (Cons r rs)
  then show ?case by (cases ks) simp_all
qed

lemma sum_list_arange1_pos: "1 \<le> w \<Longrightarrow> 0 < sum_list (arange1 w)"
  by (cases w) (simp_all add: arange1_def upt_rec [of 1])

lemma wma_func_Fin:
  assumes "1 \<le> w"
  shows "wma_func w (map Fin rs) =
         Fin (sum_list (map2 (\<lambda>r k. r * real k) rs (arange1 w)) / real (sum_list (arange1 w)))"
proof -
  define d where "d = real (sum_list (arange1 w))"
  have d: "d \<noteq> 0" using sum_list_arange1_pos [OF assms] unfolding d_def by linarith
  have "wma_func w (map Fin rs) =
        fdiv (Fin (sum_list (map2 (\<lambda>r k. r * real k) rs (arange1 w)))) (Fin d)"
    unfolding wma_func_def map2_fmul_Fin series_sum_Fin d_def ..
  also have "\<dots> = Fin (sum_list (map2 (\<lambda>r k. r * real k) rs (arange1 w)) / d)"
    using d by simp
  finally show ?thesis unfolding d_def .
qed

lemma window_at_full:
  assumes "w \<le> i + 1" "i < length vs"
  shows "window_at w vs i = map ((!) vs) [i + 1 - w..<i + 1]"
  using assms take_drop_nth [of "i + 1 - w" w vs] by (simp add: window_at_def)

lemma window_at_short:
  assumes "i + 1 < w"
  shows "length (window_at w vs i) \<le> i + 1"
  using assms by (simp add: window_at_def)

lemma filter_length_full: "length (filter P xs) = length xs \<longleftrightarrow> (\<forall>x\<in>set xs. P x)"
  by (metis filter_id_conv filter_True sum_length_filter_compl add_cancel_right_right length_0_conv filter_empty_conv)

lemma rolling_apply_nth_raw:
  assumes "i < length xs"
  shows "rolling_apply w f xs ! i =
         (let x = window_at w (prep_values xs) i in
          if w \<le> length (filter (\<lambda>v. \<not> isnan v) x) then f x else NaN)"
  using assms by (simp add: rolling_apply_def Let_def)

lemma rolling_apply_nth:
  assumes "i < length xs"
  shows "rolling_apply w f xs ! i =
         (if w \<le> i + 1 \<and> (\<forall>j\<in>{i + 1 - w..<i + 1}. isfinite (xs ! j))
          then f (map ((!) xs) [i + 1 - w..<i + 1]) else NaN)"
proof (cases "w \<le> i + 1")
  case False
  then have "length (filter (\<lambda>v. \<not> isnan v) (window_at w (prep_values xs) i)) < w"
    using window_at_short [of i w "prep_values xs"]
      length_filter_le [of "\<lambda>v. \<not> isnan v" "window_at w (prep_values xs) i"]
    by linarith
  with False show ?thesis unfolding rolling_apply_nth_raw [OF assms] Let_def by simp
next
  case True
  let ?vs = "prep_values xs"
  have len: "length ?vs = length xs" by (simp add: prep_values_def)
  have win: "window_at w ?vs i = map ((!) ?vs) [i + 1 - w..<i + 1]"
    using window_at_full [OF True] assms len by simp
  have lw: "length (window_at w ?vs i) = w" unfolding win using True by (simp del: upt_Suc)
  have nth: "\<And>j. j < length xs \<Longrightarrow> ?vs ! j = (if isinf (xs ! j) then NaN else xs ! j)"
    by (simp add: prep_values_def)
  have fin: "\<And>j. j < length xs \<Longrightarrow> \<not> isnan (?vs ! j) \<longleftrightarrow> isfinite (xs ! j)"
    subgoal for j by (cases "xs ! j") (simp_all add: nth)
    done
  have cnt: "w \<le> length (filter (\<lambda>v. \<not> isnan v) (window_at w ?vs i)) \<longleftrightarrow>
             (\<forall>j\<in>{i + 1 - w..<i + 1}. isfinite (xs ! j))"
  proof -
    have "w \<le> length (filter (\<lambda>v. \<not> isnan v) (window_at w ?vs i)) \<longleftrightarrow>
          length (filter (\<lambda>v. \<not> isnan v) (window_at w ?vs i)) = length (window_at w ?vs i)"
      using lw length_filter_le [of "\<lambda>v. \<not> isnan v" "window_at w ?vs i"] by linarith
    also have "\<dots> \<longleftrightarrow> (\<forall>v\<in>set (window_at w ?vs i). \<not> isnan v)"
      by (rule filter_length_full)
    also have "\<dots> \<longleftrightarrow> (\<forall>j\<in>{i + 1 - w..<i + 1}. \<not> isnan (?vs ! j))"
      unfolding win by (simp del: upt_Suc)
    also have "\<dots> \<longleftrightarrow> (\<forall>j\<in>{i + 1 - w..<i + 1}. isfinite (xs ! j))"
    proof (rule ball_cong [OF refl])
      fix j assume "j \<in> {i + 1 - w..<i + 1}"
      then have "j < length xs" using assms by simp
      then show "(\<not> isnan (?vs ! j)) = isfinite (xs ! j)" by (rule fin)
    qed
    finally show ?thesis .
  qed
  show ?thesis
  proof (cases "\<forall>j\<in>{i + 1 - w..<i + 1}. isfinite (xs ! j)")
    case False
    show ?thesis unfolding rolling_apply_nth_raw [OF assms] Let_def cnt
      by (simp only: False if_False simp_thms)
  next
    case allfin: True
    have "map ((!) ?vs) [i + 1 - w..<i + 1] = map ((!) xs) [i + 1 - w..<i + 1]"
    proof (rule map_cong [OF refl])
      fix j assume "j \<in> set [i + 1 - w..<i + 1]"
      then have j: "j \<in> {i + 1 - w..<i + 1}" by (simp del: upt_Suc)
      then have "j < length xs" using assms by simp
      moreover have "isfinite (xs ! j)" using allfin j by blast
      ultimately show "?vs ! j = xs ! j" by (cases "xs ! j") (simp_all add: nth)
    qed
    then have "window_at w ?vs i = map ((!) xs) [i + 1 - w..<i + 1]" using win by simp
    then show ?thesis unfolding rolling_apply_nth_raw [OF assms] Let_def cnt
      by (simp only: allfin True if_True simp_thms)
  qed
qed

section \<open>The raw ratio where the benchmark is zero or missing\<close>

lemma rs_col_nth:
  assumes "length col = length benchmark" "i < length benchmark"
  shows "rs_col col benchmark ! i = fdiv (col ! i) (benchmark ! i)"
  using assms by (simp add: rs_col_def series_div_def)

text \<open>
  C3, as the code has it. Where the benchmark price is undefined, the raw ratio is
  not-a-number. Where the benchmark price is zero, the raw ratio is not-a-number only
  if the equity price is zero or undefined; for any other equity price it is the infinity
  with the sign of the equity price. The division returns a value in every case: it
  never raises.
\<close>

theorem raw_ratio_on_bad_benchmark:
  assumes "length col = length benchmark" and "i < length benchmark"
  shows "(isnan (benchmark ! i) \<longrightarrow> rs_col col benchmark ! i = NaN) \<and>
         (benchmark ! i = Fin 0 \<longrightarrow>
            rs_col col benchmark ! i =
              (case col ! i of
                 Fin a \<Rightarrow> if a = 0 then NaN else if 0 < a then PInf else NInf
               | v \<Rightarrow> v))"
proof -
  have r: "rs_col col benchmark ! i = fdiv (col ! i) (benchmark ! i)"
    using assms by (rule rs_col_nth)
  show ?thesis
    unfolding r by (cases "col ! i"; cases "benchmark ! i") (simp_all add: inf_signed_def)
qed

theorem raw_ratio_on_bad_benchmark_witness:
  "length [Fin 0, NaN, Fin (- 2), Fin 7] = length [Fin 0, Fin 0, Fin 0, NaN] \<and>
   2 < length [Fin 0, Fin 0, Fin 0, NaN] \<and>
   [Fin 0, Fin 0, Fin 0, NaN] ! 2 = Fin 0 \<and>
   rs_col [Fin 0, NaN, Fin (- 2), Fin 7] [Fin 0, Fin 0, Fin 0, NaN] ! 2 = NInf"
  using raw_ratio_on_bad_benchmark
          [of "[Fin 0, NaN, Fin (- 2), Fin 7]" "[Fin 0, Fin 0, Fin 0, NaN]" 2]
  by simp

text \<open>
  The claim as stated fails: an equity price of 5 over a benchmark price of 0 gives an
  infinite raw ratio, not the not-a-number marker.
\<close>

theorem raw_ratio_zero_benchmark_counterexample:
  "[Fin 0] ! 0 = Fin 0 \<and> rs_col [Fin 5] [Fin 0] ! 0 = PInf \<and>
   \<not> isnan (rs_col [Fin 5] [Fin 0] ! 0) \<and> isinf (rs_col [Fin 5] [Fin 0] ! 0)"
  by (simp add: rs_col_def series_div_def inf_signed_def)

section \<open>The plot builder's trail\<close>

lemma iloc_at_last: "xs \<noteq> [] \<Longrightarrow> iloc_at (- 1) xs = Inr (last xs)"
  by (cases xs rule: rev_cases) (simp_all add: iloc_at_def Let_def nat_add_distrib nth_append)

lemma iloc_at_empty: "iloc_at (- 1) [] = Inl IndexError"
  by (simp add: iloc_at_def)

lemma iloc_from_last: "0 < n \<Longrightarrow> iloc_from (- n) xs = drop (length xs - nat n) xs"
proof -
  assume n: "0 < n"
  have "nat (max (int (length xs) + - n) 0) = length xs - nat n" using n by linarith
  then show ?thesis using n by (simp add: iloc_from_def Let_def)
qed

text \<open>
  C8, as the code has it. For every pair of series with at least one point each and
  every trail length \<open>t \<ge> 1\<close> (the slider gives 1 to 52), the plot builder returns a
  figure whose trail is the last \<open>t * 5\<close> points of each series, clipped to the whole
  series when \<open>t * 5\<close> is more than the history, and whose marker is the last point.
\<close>

theorem create_rrg_plot_trail:
  assumes "1 \<le> t" and "r \<noteq> []" and "m \<noteq> []"
  shows "create_rrg_plot r m ticker t =
           Inr \<lparr>trail_x = drop (length r - nat (t * 5)) r,
                trail_y = drop (length m - nat (t * 5)) m,
                marker_x = last r, marker_y = last m, marker_name = ticker,
                shapes = [(0, - 6, 0, 6), (- 6, 0, 6, 0)],
                title = ''RRG for '' @ ticker\<rparr> \<and>
         length (drop (length r - nat (t * 5)) r) = min (nat (t * 5)) (length r) \<and>
         length (drop (length m - nat (t * 5)) m) = min (nat (t * 5)) (length m) \<and>
         (int (length r) \<le> t * 5 \<longrightarrow> drop (length r - nat (t * 5)) r = r) \<and>
         (int (length m) \<le> t * 5 \<longrightarrow> drop (length m - nat (t * 5)) m = m)"
proof -
  have pos: "0 < t * 5" using assms(1) by simp
  have "- t * 5 = - (t * 5)" by simp
  then have "create_rrg_plot r m ticker t =
           Inr \<lparr>trail_x = drop (length r - nat (t * 5)) r,
                trail_y = drop (length m - nat (t * 5)) m,
                marker_x = last r, marker_y = last m, marker_name = ticker,
                shapes = [(0, - 6, 0, 6), (- 6, 0, 6, 0)],
                title = ''RRG for '' @ ticker\<rparr>"
    unfolding create_rrg_plot_def Let_def
    by (simp only: iloc_from_last [OF pos] iloc_at_last [OF assms(2)]
          iloc_at_last [OF assms(3)] sum.case)
  moreover have "int (length r) \<le> t * 5 \<longrightarrow> drop (length r - nat (t * 5)) r = r" by auto
  moreover have "int (length m) \<le> t * 5 \<longrightarrow> drop (length m - nat (t * 5)) m = m" by auto
  moreover have "length (drop (length r - nat (t * 5)) r) = min (nat (t * 5)) (length r)"
    by auto
  moreover have "length (drop (length m - nat (t * 5)) m) = min (nat (t * 5)) (length m)"
    by auto
  ultimately show ?thesis by blast
qed

text \<open>Trail length 52 on ten points of history: the trail is all ten points.\<close>

theorem create_rrg_plot_trail_witness:
  "(1::int) \<le> 52 \<and>
   map Fin [1, 2, 3, 4, 5, 6, 7, 8, 9, 10] \<noteq> [] \<and>
   map Fin [10, 9, 8, 7, 6, 5, 4, 3, 2, 1] \<noteq> [] \<and>
   create_rrg_plot (map Fin [1, 2, 3, 4, 5, 6, 7, 8, 9, 10])
       (map Fin [10, 9, 8, 7, 6, 5, 4, 3, 2, 1]) ''AAA'' 52 =
     Inr \<lparr>trail_x = map Fin [1, 2, 3, 4, 5, 6, 7, 8, 9, 10],
          trail_y = map Fin [10, 9, 8, 7, 6, 5, 4, 3, 2, 1],
          marker_x = Fin 10, marker_y = Fin 1, marker_name = ''AAA'',
          shapes = [(0, - 6, 0, 6), (- 6, 0, 6, 0)],
          title = ''RRG for AAA''\<rparr>"
  using create_rrg_plot_trail [of 52 "map Fin [1, 2, 3, 4, 5, 6, 7, 8, 9, 10]"
          "map Fin [10, 9, 8, 7, 6, 5, 4, 3, 2, 1]" "''AAA''"]
  by simp

text \<open>
  The claim as stated fails on a pair of series without any point: the trail request of
  52 weeks is more than the history, and the builder raises at the marker of the most
  recent point instead of returning a figure.
\<close>

theorem create_rrg_plot_empty_counterexample:
  "(1::int) \<le> 52 \<and> (52::int) \<le> 52 \<and> int (length ([] :: series)) < 52 * 5 \<and>
   create_rrg_plot [] [] ''AAA'' 52 = Inl IndexError"
  by (simp add: create_rrg_plot_def iloc_at_empty)

section \<open>Validation of the inputs\<close>

lemma dropWhile_all_iff: "(\<forall>x\<in>set (dropWhile P xs). P x) \<longleftrightarrow> (\<forall>x\<in>set xs. P x)"
  by (induction xs) auto

lemma strip_empty_iff: "strip s = [] \<longleftrightarrow> (\<forall>c\<in>set s. py_isspace c)"
  by (simp add: strip_def dropWhile_all_iff)

lemma split_nl_no_newline: "l \<in> set (split_nl s) \<Longrightarrow> CHR 0x0A \<notin> set l"
  by (induction s arbitrary: l) (auto split: list.splits if_splits)

lemma main_invalid:
  assumes "\<not> valid_inputs inp"
  shows "main download_data inp =
           \<lparr>texts = [''VS '' @ snd (apply_presets inp)], errors = validation_messages inp,
            downloads = [], charts = [], raised = None\<rparr>"
  using assms
  by (auto simp add: main_def valid_inputs_def validation_messages_def Let_def
        split: prod.splits)

lemma plot_all_errors: "errors (plot_all nr nm t its pg) = errors pg"
  by (induction nr nm t its pg rule: plot_all.induct) (auto split: sum.splits)

lemma render_errors: "errors (render d eq b inp pg) = errors pg"
  by (auto simp: render_def Let_def plot_all_errors split: sum.splits prod.splits)

lemma main_valid_errors:
  assumes "valid_inputs inp"
  shows "errors (main download_data inp) = []"
  using assms
  by (auto simp add: main_def valid_inputs_def Let_def render_errors split: prod.splits)

lemma validation_messages_invalid: "\<not> valid_inputs inp \<Longrightarrow> validation_messages inp \<noteq> []"
  by (auto simp: valid_inputs_def validation_messages_def)

lemma equity_tickers_AAA_BBB: "equity_tickers ''AAA\<newline>BBB'' = [''AAA'', ''BBB'']"
  by (simp add: equity_tickers_def strip_def py_isspace_def)

text \<open>
  C4. Charts appear only for a valid input. For an input that violates a condition, the
  run makes no request to the provider, renders no chart, ends without an exception and
  shows exactly the messages of the violated conditions, one each and all of them; a
  valid input shows no message.
\<close>

theorem main_validation:
  "(charts (main download_data inp) \<noteq> [] \<longrightarrow> valid_inputs inp) \<and>
   (\<not> valid_inputs inp \<longrightarrow>
      charts (main download_data inp) = [] \<and>
      downloads (main download_data inp) = [] \<and>
      raised (main download_data inp) = None \<and>
      errors (main download_data inp) = validation_messages inp \<and>
      validation_messages inp \<noteq> []) \<and>
   (valid_inputs inp \<longrightarrow> errors (main download_data inp) = [])"
proof (cases "valid_inputs inp")
  case True
  then show ?thesis using main_valid_errors by simp
next
  case False
  then show ?thesis
    using main_invalid [OF False, of download_data] validation_messages_invalid [OF False]
    by simp
qed

text \<open>
  Tickers \<open>AAA\<close> and \<open>BBB\<close>, benchmark \<open>CCC\<close>, start date after end date: no chart, and
  the end-date message alone.
\<close>

theorem main_validation_witness:
  "\<not> valid_inputs reversed_dates_input \<and>
   charts (main no_provider reversed_dates_input) = [] \<and>
   downloads (main no_provider reversed_dates_input) = [] \<and>
   errors (main no_provider reversed_dates_input) =
     [''Error: End date must be after start date.'']"
proof -
  have inv: "\<not> valid_inputs reversed_dates_input"
    by (simp add: valid_inputs_def reversed_dates_input_def)
  have msgs: "validation_messages reversed_dates_input =
      [''Error: End date must be after start date.'']"
    by (simp add: validation_messages_def reversed_dates_input_def apply_presets_def
          equity_tickers_AAA_BBB)
  show ?thesis
    using main_validation [of no_provider reversed_dates_input] inv msgs by simp
qed

section \<open>Reading the tickers off the text area\<close>

lemma split_nl_not_Nil: "split_nl s \<noteq> []"
  by (induction s) (auto split: list.splits)

lemma join_nl_push: "join_nl ((c # l) # ls) = c # join_nl (l # ls)"
  by (cases ls) simp_all

lemma join_nl_empty_line: "ls \<noteq> [] \<Longrightarrow> join_nl ([] # ls) = CHR 0x0A # join_nl ls"
  by (cases ls) simp_all

lemma join_split_nl: "join_nl (split_nl s) = s"
proof (induction s)
  case Nil
  show ?case by simp
next
  case (Cons c cs)
  show ?case
  proof (cases "c = CHR 0x0A")
    case True
    then show ?thesis using Cons split_nl_not_Nil [of cs] by (simp add: join_nl_empty_line)
  next
    case False
    obtain l ls where e: "split_nl cs = l # ls"
      using split_nl_not_Nil [of cs] by (cases "split_nl cs") auto
    then show ?thesis using Cons False by (simp add: join_nl_push)
  qed
qed

lemma split_nl_line: "CHR 0x0A \<notin> set l \<Longrightarrow> split_nl l = [l]"
  by (induction l) auto

lemma split_nl_first_line:
  "CHR 0x0A \<notin> set l \<Longrightarrow> split_nl (l @ CHR 0x0A # rest) = l # split_nl rest"
  by (induction l) auto

lemma split_join_nl:
  assumes "ls \<noteq> []" and "\<forall>l\<in>set ls. CHR 0x0A \<notin> set l"
  shows "split_nl (join_nl ls) = ls"
  using assms
proof (induction ls rule: join_nl.induct)
  case 1
  then show ?case by simp
next
  case (2 l)
  then show ?case by (simp add: split_nl_line)
next
  case (3 l m ls)
  then show ?case by (simp add: split_nl_first_line)
qed

lemma split_nl_iff:
  "split_nl txt = ls \<longleftrightarrow> ls \<noteq> [] \<and> join_nl ls = txt \<and> (\<forall>l\<in>set ls. CHR 0x0A \<notin> set l)"
  using split_nl_not_Nil join_split_nl split_nl_no_newline split_join_nl by metis

lemma rev_dropWhile_takeWhile:
  "rev (dropWhile P (rev xs)) @ rev (takeWhile P (rev xs)) = xs"
proof -
  have "rev (takeWhile P (rev xs) @ dropWhile P (rev xs)) = rev (rev xs)"
    by (simp only: takeWhile_dropWhile_id)
  then show ?thesis by (simp only: rev_append rev_rev_ident)
qed

lemma strip_decomposition:
  "\<exists>a b. l = a @ strip l @ b \<and> (\<forall>c\<in>set a. py_isspace c) \<and> (\<forall>c\<in>set b. py_isspace c)"
proof -
  let ?m = "dropWhile py_isspace l"
  let ?a = "takeWhile py_isspace l"
  let ?b = "rev (takeWhile py_isspace (rev ?m))"
  have m: "?m = strip l @ ?b"
    unfolding strip_def by (rule rev_dropWhile_takeWhile [symmetric])
  have "l = ?a @ ?m" by simp
  then have "l = ?a @ strip l @ ?b" using m by simp
  moreover have "\<forall>c\<in>set ?a. py_isspace c" by (auto dest: set_takeWhileD)
  moreover have "\<forall>c\<in>set ?b. py_isspace c" by (auto dest: set_takeWhileD)
  ultimately show ?thesis by blast
qed

lemma strip_ends:
  assumes "strip l \<noteq> []"
  shows "\<not> py_isspace (hd (strip l)) \<and> \<not> py_isspace (last (strip l))"
proof -
  let ?m = "dropWhile py_isspace l"
  let ?r = "dropWhile py_isspace (rev ?m)"
  have r: "?r \<noteq> []" using assms by (simp add: strip_def)
  then have "\<not> py_isspace (hd ?r)" by (rule hd_dropWhile)
  moreover have "last (strip l) = hd ?r" using r by (simp add: strip_def last_rev)
  ultimately have l: "\<not> py_isspace (last (strip l))" by simp
  obtain b where m: "?m = strip l @ b"
  proof -
    have "?m = strip l @ rev (takeWhile py_isspace (rev ?m))"
      unfolding strip_def by (rule rev_dropWhile_takeWhile [symmetric])
    then show ?thesis using that by blast
  qed
  then have "?m \<noteq> []" using assms by auto
  then have "\<not> py_isspace (hd ?m)" by (rule hd_dropWhile)
  moreover have "hd ?m = hd (strip l)" using m assms by (metis hd_append2)
  ultimately show ?thesis using l by simp
qed

lemma py_isspace_chars:
  "py_isspace c \<longleftrightarrow>
     c \<in> set [CHR 0x09, CHR 0x0A, CHR 0x0B, CHR 0x0C, CHR 0x0D, CHR 0x1C, CHR 0x1D, CHR 0x1E,
              CHR 0x1F, CHR 0x20, CHR 0x85, CHR 0xA0]"
  by (cases c) (auto simp: py_isspace_def)

lemma plot_all_downloads: "downloads (plot_all nr nm t its pg) = downloads pg"
  by (induction nr nm t its pg rule: plot_all.induct) (auto split: sum.splits)

lemma render_downloads:
  "downloads (render d eq b inp pg) = downloads pg @ [(eq @ [b], start_date inp, end_date inp)]"
  by (auto simp: render_def Let_def plot_all_downloads split: sum.splits prod.splits)

lemma main_valid_downloads:
  assumes "valid_inputs inp"
  shows "downloads (main download_data inp) =
         [(equity_tickers (fst (apply_presets inp)) @ [snd (apply_presets inp)],
           start_date inp, end_date inp)]"
  using assms
  by (auto simp add: main_def valid_inputs_def Let_def render_downloads split: prod.splits)

lemma padded_split:
  "split_nl (equity_input padded_tickers_input) = ['' AAA'', [], CHR 0x09 # ''BBB '']"
  by (simp add: padded_tickers_input_def)

lemma padded_tickers: "equity_tickers (equity_input padded_tickers_input) = [''AAA'', ''BBB'']"
  by (simp add: equity_tickers_def padded_split strip_def py_isspace_def)

text \<open>
  C10. The text is cut at every line feed and nowhere else: the pieces hold no line
  feed and joined by line feeds they give the text back, and no other list of pieces
  does. Stripping a piece removes white space from its two ends and stops at the first
  and the last character that is not white space; white space is the twelve characters
  of \<open>str.isspace\<close> below 256. The ticker list is the stripped pieces, without the
  pieces that hold white space only. A text of such pieces only gives the empty list,
  and the run then shows the empty-ticker message and makes no request to the provider;
  a valid input makes the one request for the parsed tickers and the benchmark. The text
  parsed is the text area's unless a preset button is pressed.
\<close>

theorem ticker_text_parsing:
  "(split_nl txt = ls \<longleftrightarrow>
      ls \<noteq> [] \<and> join_nl ls = txt \<and> (\<forall>l\<in>set ls. CHR 0x0A \<notin> set l)) \<and>
   (\<exists>a b. l = a @ strip l @ b \<and> (\<forall>c\<in>set a. py_isspace c) \<and> (\<forall>c\<in>set b. py_isspace c)) \<and>
   (strip l \<noteq> [] \<longrightarrow> \<not> py_isspace (hd (strip l)) \<and> \<not> py_isspace (last (strip l))) \<and>
   (py_isspace c \<longleftrightarrow>
      c \<in> set [CHR 0x09, CHR 0x0A, CHR 0x0B, CHR 0x0C, CHR 0x0D, CHR 0x1C, CHR 0x1D,
               CHR 0x1E, CHR 0x1F, CHR 0x20, CHR 0x85, CHR 0xA0]) \<and>
   equity_tickers txt =
     map strip (filter (\<lambda>l. \<exists>c\<in>set l. \<not> py_isspace c) (split_nl txt)) \<and>
   ((\<forall>l\<in>set (split_nl txt). \<forall>c\<in>set l. py_isspace c) \<longrightarrow> equity_tickers txt = []) \<and>
   ((\<forall>l\<in>set (split_nl (fst (apply_presets inp))). \<forall>c\<in>set l. py_isspace c) \<longrightarrow>
      ''Error: Please enter at least one equity ticker.''
        \<in> set (errors (main download_data inp)) \<and>
      downloads (main download_data inp) = [] \<and>
      charts (main download_data inp) = []) \<and>
   (valid_inputs inp \<longrightarrow>
      downloads (main download_data inp) =
        [(equity_tickers (fst (apply_presets inp)) @ [snd (apply_presets inp)],
          start_date inp, end_date inp)]) \<and>
   (\<not> button_IT inp \<and> \<not> button_Banks inp \<and> \<not> button_Auto inp \<and> \<not> button_Energy inp \<longrightarrow>
      fst (apply_presets inp) = equity_input inp)"
proof -
  have parse: "equity_tickers t =
      map strip (filter (\<lambda>l. \<exists>c\<in>set l. \<not> py_isspace c) (split_nl t))" for t
    by (simp add: equity_tickers_def strip_empty_iff)
  have blank: "equity_tickers t = []"
    if "\<forall>l\<in>set (split_nl t). \<forall>c\<in>set l. py_isspace c" for t
    using that unfolding parse by (simp add: filter_empty_conv)
  have run: "''Error: Please enter at least one equity ticker.''
        \<in> set (errors (main download_data inp)) \<and>
      downloads (main download_data inp) = [] \<and>
      charts (main download_data inp) = []"
    if b: "\<forall>l\<in>set (split_nl (fst (apply_presets inp))). \<forall>c\<in>set l. py_isspace c"
  proof -
    have e: "equity_tickers (fst (apply_presets inp)) = []" using b by (rule blank)
    then have inv: "\<not> valid_inputs inp" by (simp add: valid_inputs_def)
    show ?thesis
      unfolding main_invalid [OF inv] by (simp add: validation_messages_def e)
  qed
  have area: "fst (apply_presets inp) = equity_input inp"
    if "\<not> button_IT inp \<and> \<not> button_Banks inp \<and> \<not> button_Auto inp \<and> \<not> button_Energy inp"
    using that by (simp add: apply_presets_def)
  show ?thesis
    using split_nl_iff [of "txt" ls] strip_decomposition [of l] strip_ends [of l]
      py_isspace_chars [of c] parse [of "txt"] blank [of "txt"] run
      main_valid_downloads [of inp download_data] area
    by blast
qed

text \<open>
  Two tickers among blanks are found and requested with the benchmark; a text area of
  blank lines only is turned down before any request.
\<close>

theorem ticker_text_parsing_witness:
  "split_nl (equity_input padded_tickers_input) = ['' AAA'', [], CHR 0x09 # ''BBB ''] \<and>
   equity_tickers (equity_input padded_tickers_input) = [''AAA'', ''BBB''] \<and>
   valid_inputs padded_tickers_input \<and>
   downloads (main no_provider padded_tickers_input) = [([''AAA'', ''BBB'', ''CCC''], 10, 20)] \<and>
   list_all (list_all py_isspace) (split_nl (equity_input blank_lines_input)) \<and>
   equity_tickers (equity_input blank_lines_input) = [] \<and>
   start_date blank_lines_input < end_date blank_lines_input \<and>
   errors (main no_provider blank_lines_input) =
     [''Error: Please enter at least one equity ticker.''] \<and>
   downloads (main no_provider blank_lines_input) = []"
proof -
  note t = ticker_text_parsing
  have pp: "fst (apply_presets padded_tickers_input) = equity_input padded_tickers_input"
    "snd (apply_presets padded_tickers_input) = ''CCC''"
    by (simp_all add: apply_presets_def padded_tickers_input_def)
  have pv: "valid_inputs padded_tickers_input"
    by (simp add: valid_inputs_def pp padded_tickers) (simp add: padded_tickers_input_def)
  have "downloads (main no_provider padded_tickers_input) =
        [(equity_tickers (fst (apply_presets padded_tickers_input)) @
            [snd (apply_presets padded_tickers_input)],
          start_date padded_tickers_input, end_date padded_tickers_input)]"
    using t [of _ _ _ _ padded_tickers_input no_provider] pv by blast
  then have pd: "downloads (main no_provider padded_tickers_input) =
        [([''AAA'', ''BBB'', ''CCC''], 10, 20)]"
    by (simp add: pp padded_tickers) (simp add: padded_tickers_input_def)
  have b: "\<forall>l\<in>set (split_nl (equity_input blank_lines_input)). \<forall>c\<in>set l. py_isspace c"
    by (simp add: blank_lines_input_def py_isspace_def)
  have p: "fst (apply_presets blank_lines_input) = equity_input blank_lines_input"
    by (simp add: apply_presets_def blank_lines_input_def)
  have e: "equity_tickers (equity_input blank_lines_input) = []"
    using t [of "equity_input blank_lines_input"] b by blast
  have inv: "\<not> valid_inputs blank_lines_input" by (simp add: valid_inputs_def p e)
  have m: "errors (main no_provider blank_lines_input) =
      [''Error: Please enter at least one equity ticker.'']"
    unfolding main_invalid [OF inv]
    by (simp add: validation_messages_def p e) (simp add: blank_lines_input_def apply_presets_def)
  have d: "downloads (main no_provider blank_lines_input) = []"
    using t [of _ _ _ _ blank_lines_input no_provider] b p by metis
  have bl: "list_all (list_all py_isspace) (split_nl (equity_input blank_lines_input))"
    using b by (simp add: list_all_iff)
  have st: "start_date blank_lines_input < end_date blank_lines_input"
    by (simp add: blank_lines_input_def)
  show ?thesis using padded_split padded_tickers pv pd bl e st m d by blast
qed

section \<open>Properties of the normalizer\<close>
























lemma fdiv_NaN_right: "fdiv a NaN = NaN"
  by (cases a) simp_all






section \<open>The indicator engine against its reference definition\<close>

declare upt_Suc [simp del]

lemma zip_upt_weights:
  "map2 (\<lambda>r k. r * real k) (map f [a..<a + w]) (arange1 w) =
   map (\<lambda>i. real i * f (a + i - 1)) [1..<w + 1]"
  by (rule nth_equalityI) (simp_all add: arange1_def mult.commute)

lemma weighted_sum_list:
  "sum_list (map2 (\<lambda>r k. r * real k) (map f [a..<a + w]) (arange1 w)) =
   (\<Sum>i = 1..w. real i * f (a + i - 1))"
proof -
  have "{1..<w + 1} = {1..w}" by auto
  then show ?thesis
    unfolding zip_upt_weights by (simp add: interv_sum_list_conv_sum_set_nat)
qed

lemma weights_sum_list: "real (sum_list (arange1 w)) = (\<Sum>i = 1..w. real i)"
proof -
  have "{1..<w + 1} = {1..w}" by auto
  moreover have "sum_list (arange1 w) = sum_list (map (\<lambda>i. i) [1..<w + 1])"
    by (simp add: arange1_def)
  ultimately show ?thesis
    by (simp only: interv_sum_list_conv_sum_set_nat set_upt of_nat_sum)
qed

lemma rolling_wma_spec:
  assumes "1 \<le> w" and "t < length xs"
  shows "rolling_apply w (wma_func w) xs ! t = spec_lwma w ((!) xs) t"
proof (cases "w \<le> t + 1")
  case False
  then show ?thesis by (simp add: rolling_apply_nth [OF assms(2)] spec_lwma_def)
next
  case True
  have idx: "(\<forall>j\<in>{t + 1 - w..<t + 1}. isfinite (xs ! j)) \<longleftrightarrow>
             \<not> (\<exists>i\<in>{1..w}. \<not> isfinite (xs ! (t + i - w)))"
  proof -
    have "j \<in> {t + 1 - w..<t + 1} \<Longrightarrow> \<exists>i\<in>{1..w}. j = t + i - w" for j
      using True by (intro bexI [of _ "j + w - t"]) auto
    moreover have "i \<in> {1..w} \<Longrightarrow> t + i - w \<in> {t + 1 - w..<t + 1}" for i
      using True by auto
    ultimately show ?thesis by blast
  qed
  show ?thesis
  proof (cases "\<forall>j\<in>{t + 1 - w..<t + 1}. isfinite (xs ! j)")
    case False
    then have "rolling_apply w (wma_func w) xs ! t = NaN"
      unfolding rolling_apply_nth [OF assms(2)] by (simp only: if_False simp_thms)
    moreover have "spec_lwma w ((!) xs) t = NaN"
      using False unfolding idx spec_lwma_def by (simp only: if_True simp_thms)
    ultimately show ?thesis by simp
  next
    case fin: True
    let ?a = "t + 1 - w"
    have up: "[?a..<t + 1] = [?a..<?a + w]" using True by simp
    have win: "map ((!) xs) [?a..<t + 1] = map Fin (map (\<lambda>j. val (xs ! j)) [?a..<?a + w])"
      unfolding up map_map
    proof (rule map_cong [OF refl])
      fix j assume "j \<in> set [?a..<?a + w]"
      then have "j \<in> {?a..<t + 1}" using True by (simp)
      then have "isfinite (xs ! j)" using fin by blast
      then show "xs ! j = (Fin \<circ> (\<lambda>j. val (xs ! j))) j" by (simp add: isfinite_conv [symmetric])
    qed
    have shift: "(\<Sum>i = 1..w. real i * val (xs ! (?a + i - 1))) =
                 (\<Sum>i = 1..w. real i * val (xs ! (t + i - w)))"
      using True by (intro sum.cong refl) (simp add: algebra_simps)
    have "rolling_apply w (wma_func w) xs ! t = wma_func w (map ((!) xs) [?a..<t + 1])"
      unfolding rolling_apply_nth [OF assms(2)] using True fin by simp
    also have "\<dots> = Fin ((\<Sum>i = 1..w. real i * val (xs ! (t + i - w))) / (\<Sum>i = 1..w. real i))"
      unfolding win wma_func_Fin [OF assms(1)] weighted_sum_list weights_sum_list shift ..
    also have "\<dots> = spec_lwma w ((!) xs) t"
    proof -
      have c: "\<not> (t + 1 < w \<or> (\<exists>i\<in>{1..w}. \<not> isfinite (xs ! (t + i - w))))"
        using fin True unfolding idx by simp
      show ?thesis unfolding spec_lwma_def by (simp only: c if_False)
    qed
    finally show ?thesis .
  qed
qed


lemma spec_lwma_similar:
  assumes "\<And>s. s \<le> t \<Longrightarrow> x s = y s \<or> (\<not> isfinite (x s) \<and> \<not> isfinite (y s))"
  shows "spec_lwma w x t = spec_lwma w y t"
proof -
  have le: "t + i - w \<le> t" if "i \<in> {1..w}" for i using that by auto
  have finq: "isfinite (x (t + i - w)) \<longleftrightarrow> isfinite (y (t + i - w))" if "i \<in> {1..w}" for i
    using assms [OF le [OF that]] by auto
  have c: "(\<exists>i\<in>{1..w}. \<not> isfinite (x (t + i - w))) \<longleftrightarrow> (\<exists>i\<in>{1..w}. \<not> isfinite (y (t + i - w)))"
    using finq by blast
  show ?thesis
  proof (cases "t + 1 < w \<or> (\<exists>i\<in>{1..w}. \<not> isfinite (x (t + i - w)))")
    case True
    then show ?thesis using c unfolding spec_lwma_def by auto
  next
    case False
    then have eq: "x (t + i - w) = y (t + i - w)" if "i \<in> {1..w}" for i
      using assms [OF le [OF that]] that by blast
    have "(\<Sum>i = 1..w. real i * val (x (t + i - w))) = (\<Sum>i = 1..w. real i * val (y (t + i - w)))"
      by (intro sum.cong refl) (simp add: eq)
    then show ?thesis using False c unfolding spec_lwma_def by auto
  qed
qed

lemma spec_lwma_undefined_now:
  assumes "1 \<le> w" and "\<not> isfinite (x t)"
  shows "spec_lwma w x t = NaN"
proof -
  have "w \<in> {1..w}" using assms(1) by simp
  moreover have "\<not> isfinite (x (t + w - w))" using assms(2) by simp
  ultimately have "\<exists>i\<in>{1..w}. \<not> isfinite (x (t + i - w))" by blast
  then show ?thesis by (simp add: spec_lwma_def)
qed

lemma raw_ratio_similar:
  "fdiv e b = (if isnan b \<or> b = Fin 0 then NaN else fdiv e b) \<or>
   (\<not> isfinite (fdiv e b) \<and> \<not> isfinite (if isnan b \<or> b = Fin 0 then NaN else fdiv e b))"
  by (cases e; cases b) (simp_all add: inf_signed_def)

lemma length_rs_col: "length col = length benchmark \<Longrightarrow> length (rs_col col benchmark) = length benchmark"
  by (simp add: rs_col_def series_div_def)

lemma series_div_nth:
  "t < length xs \<Longrightarrow> t < length ys \<Longrightarrow> series_div xs ys ! t = fdiv (xs ! t) (ys ! t)"
  by (simp add: series_div_def)

lemma series_scale_nth: "t < length xs \<Longrightarrow> series_scale xs c ! t = fmul (xs ! t) (Fin c)"
  by (simp add: series_scale_def)

lemma rs_similar:
  assumes "length col = length benchmark" and "s < length benchmark"
  shows "rs_col col benchmark ! s = spec_raw_ratio col benchmark s \<or>
         (\<not> isfinite (rs_col col benchmark ! s) \<and> \<not> isfinite (spec_raw_ratio col benchmark s))"
  unfolding rs_col_nth [OF assms] spec_raw_ratio_def by (rule raw_ratio_similar)

lemma quotient_spec:
  assumes w: "1 \<le> w" and len: "length col = length benchmark" and s: "s < length benchmark"
  shows "series_div (rs_col col benchmark) (wma_rs_col col benchmark w) ! s =
         fdiv (spec_raw_ratio col benchmark s)
              (spec_lwma w (spec_raw_ratio col benchmark) s)"
proof -
  let ?rs = "rs_col col benchmark"
  let ?raw = "spec_raw_ratio col benchmark"
  have lr: "length ?rs = length benchmark" by (rule length_rs_col [OF len])
  have "wma_rs_col col benchmark w ! s = spec_lwma w ((!) ?rs) s"
    unfolding wma_rs_col_def using rolling_wma_spec [OF w, of s ?rs] s lr by simp
  also have "\<dots> = spec_lwma w ?raw s"
  proof (rule spec_lwma_similar)
    fix u assume "u \<le> s"
    then have "u < length benchmark" using s by simp
    then show "?rs ! u = ?raw u \<or> (\<not> isfinite (?rs ! u) \<and> \<not> isfinite (?raw u))"
      by (rule rs_similar [OF len])
  qed
  finally have wm: "wma_rs_col col benchmark w ! s = spec_lwma w ?raw s" .
  have lw: "length (wma_rs_col col benchmark w) = length benchmark"
    by (simp add: wma_rs_col_def length_rolling_apply lr)
  have "series_div ?rs (wma_rs_col col benchmark w) ! s = fdiv (?rs ! s) (spec_lwma w ?raw s)"
    using s lr lw by (simp add: series_div_nth wm)
  also have "\<dots> = fdiv (?raw s) (spec_lwma w ?raw s)"
  proof (cases "?rs ! s = ?raw s")
    case True
    then show ?thesis by simp
  next
    case False
    then have "\<not> isfinite (?raw s)" using rs_similar [OF len s] by blast
    then have "spec_lwma w ?raw s = NaN" by (rule spec_lwma_undefined_now [OF w])
    then show ?thesis by (simp add: fdiv_NaN_right)
  qed
  finally show ?thesis .
qed

lemma length_quotient:
  "length col = length benchmark \<Longrightarrow>
   length (series_div (rs_col col benchmark) (wma_rs_col col benchmark w)) = length benchmark"
  by (simp add: series_div_def wma_rs_col_def length_rolling_apply length_rs_col)

lemma length_rs_ratio_col:
  "length col = length benchmark \<Longrightarrow> length (rs_ratio_col col benchmark w) = length benchmark"
  by (simp add: rs_ratio_col_def series_scale_def length_rolling_apply length_quotient)

lemma length_rs_momentum_col:
  "length col = length benchmark \<Longrightarrow> length (rs_momentum_col col benchmark w) = length benchmark"
  by (simp add: rs_momentum_col_def Let_def series_scale_def series_div_def
      length_rolling_apply length_rs_ratio_col)

lemma rs_ratio_col_spec:
  assumes w: "1 \<le> w" and len: "length col = length benchmark" and t: "t < length benchmark"
  shows "rs_ratio_col col benchmark w ! t = spec_rs_ratio w col benchmark t"
proof -
  let ?q = "series_div (rs_col col benchmark) (wma_rs_col col benchmark w)"
  have lq: "length ?q = length benchmark" by (rule length_quotient [OF len])
  have "rolling_apply w (wma_func w) ?q ! t = spec_lwma w ((!) ?q) t"
    using rolling_wma_spec [OF w, of t ?q] t lq by simp
  also have "\<dots> = spec_lwma w (\<lambda>s. fdiv (spec_raw_ratio col benchmark s)
                          (spec_lwma w (spec_raw_ratio col benchmark) s)) t"
  proof (rule spec_lwma_similar)
    fix s assume "s \<le> t"
    then have "s < length benchmark" using t by simp
    then show "?q ! s = fdiv (spec_raw_ratio col benchmark s)
                          (spec_lwma w (spec_raw_ratio col benchmark) s) \<or>
               (\<not> isfinite (?q ! s) \<and>
                \<not> isfinite (fdiv (spec_raw_ratio col benchmark s)
                          (spec_lwma w (spec_raw_ratio col benchmark) s)))"
      using quotient_spec [OF w len] by blast
  qed
  finally show ?thesis
    using t lq by (simp add: rs_ratio_col_def spec_rs_ratio_def series_scale_nth length_rolling_apply)
qed

lemma rs_momentum_col_spec:
  assumes w: "1 \<le> w" and len: "length col = length benchmark" and t: "t < length benchmark"
  shows "rs_momentum_col col benchmark w ! t = spec_rs_momentum w col benchmark t"
proof -
  let ?r = "rs_ratio_col col benchmark w"
  have lr: "length ?r = length benchmark" by (rule length_rs_ratio_col [OF len])
  have "rolling_apply w (wma_func w) ?r ! t = spec_lwma w ((!) ?r) t"
    using rolling_wma_spec [OF w, of t ?r] t lr by simp
  also have "\<dots> = spec_lwma w (spec_rs_ratio w col benchmark) t"
  proof (rule spec_lwma_similar)
    fix s assume "s \<le> t"
    then have "s < length benchmark" using t by simp
    then show "?r ! s = spec_rs_ratio w col benchmark s \<or>
               (\<not> isfinite (?r ! s) \<and> \<not> isfinite (spec_rs_ratio w col benchmark s))"
      using rs_ratio_col_spec [OF w len] by blast
  qed
  finally have "rolling_apply w (wma_func w) ?r ! t = spec_lwma w (spec_rs_ratio w col benchmark) t" .
  then show ?thesis
    using t lr rs_ratio_col_spec [OF w len t]
    by (simp add: rs_momentum_col_def Let_def spec_rs_momentum_def series_scale_nth
        series_div_nth length_rolling_apply series_div_def)
qed

lemma rs_ratio_col_eq:
  assumes "1 \<le> w" and "length col = length benchmark"
  shows "rs_ratio_col col benchmark w = map (spec_rs_ratio w col benchmark) [0..<length benchmark]"
  by (rule nth_equalityI)
     (simp_all add: length_rs_ratio_col [OF assms(2)] rs_ratio_col_spec [OF assms])

lemma rs_momentum_col_eq:
  assumes "1 \<le> w" and "length col = length benchmark"
  shows "rs_momentum_col col benchmark w =
         map (spec_rs_momentum w col benchmark) [0..<length benchmark]"
  by (rule nth_equalityI)
     (simp_all add: length_rs_momentum_col [OF assms(2)] rs_momentum_col_spec [OF assms])

lemma engine_example_ratio:
  "rs_ratio_col [Fin 2, Fin 4, Fin 3, Fin 6, Fin 6] [Fin 1, Fin 1, Fin 1, Fin 2, Fin 1] 2 =
   [NaN, NaN, Fin 100, Fin (290 / 3), Fin (340 / 3)]"
  by (simp add: rs_ratio_col_def
      rs_col_def wma_rs_col_def series_div_def series_scale_def rolling_apply_def
      prep_values_def window_at_def wma_func_def series_sum_def arange1_def Let_def upt_rec)

lemma engine_example_momentum:
  "rs_momentum_col [Fin 2, Fin 4, Fin 3, Fin 6, Fin 6] [Fin 1, Fin 1, Fin 1, Fin 2, Fin 1] 2 =
   [NaN, NaN, NaN, Fin (2175 / 22), Fin (10200 / 97)]"
  unfolding rs_momentum_col_def Let_def engine_example_ratio
  by (simp add: series_div_def series_scale_def rolling_apply_def
      prep_values_def window_at_def wma_func_def series_sum_def arange1_def Let_def upt_rec)

lemma engine_example:
  "calculate_rrg_components_improved
     [(''AAA'', [Fin 2, Fin 4, Fin 3, Fin 6, Fin 6])] [Fin 1, Fin 1, Fin 1, Fin 2, Fin 1] 2 =
   ([(''AAA'', [NaN, NaN, Fin 100, Fin (290 / 3), Fin (340 / 3)])],
    [(''AAA'', [NaN, NaN, NaN, Fin (2175 / 22), Fin (10200 / 97)])])"
  by (simp add: calculate_rrg_components_improved_def engine_example_ratio engine_example_momentum)

text \<open>
  C1. For every window length of at least 1 and every table whose columns share the
  date axis of the benchmark, the two frames the engine returns hold, for every ticker
  and date, the RS-Ratio and the RS-Momentum of the reference definition: the raw ratio,
  its linearly weighted moving average with the weights 1 to \<open>w\<close>, the weighted average
  of the ratio over its average, times 100, and that over its own weighted average,
  times 100.
\<close>

theorem engine_is_reference:
  assumes "1 \<le> w" and "list_all (\<lambda>(ticker, col). length col = length benchmark) data"
  shows "calculate_rrg_components_improved data benchmark w =
           (map (\<lambda>(ticker, col).
                  (ticker, map (spec_rs_ratio w col benchmark) [0..<length benchmark])) data,
            map (\<lambda>(ticker, col).
                  (ticker, map (spec_rs_momentum w col benchmark) [0..<length benchmark])) data)"
proof -
  have "(ticker, rs_ratio_col col benchmark w) =
        (ticker, map (spec_rs_ratio w col benchmark) [0..<length benchmark])"
    and "(ticker, rs_momentum_col col benchmark w) =
        (ticker, map (spec_rs_momentum w col benchmark) [0..<length benchmark])"
    if "(ticker, col) \<in> set data" for ticker col
    using that assms rs_ratio_col_eq [OF assms(1)] rs_momentum_col_eq [OF assms(1)]
    by (auto simp: list_all_iff)
  then show ?thesis
    unfolding calculate_rrg_components_improved_def by (auto intro!: map_cong)
qed

theorem engine_is_reference_witness:
  "(1::nat) \<le> 2 \<and>
   list_all (\<lambda>(ticker, col). length col = length [Fin 1, Fin 1, Fin 1, Fin 2, Fin 1])
     [(''AAA'', [Fin 2, Fin 4, Fin 3, Fin 6, Fin 6])] \<and>
   (map (\<lambda>(ticker, col). (ticker,
        map (spec_rs_ratio 2 col [Fin 1, Fin 1, Fin 1, Fin 2, Fin 1])
          [0..<length [Fin 1, Fin 1, Fin 1, Fin 2, Fin (1::real)]]))
      [(''AAA'', [Fin 2, Fin 4, Fin 3, Fin 6, Fin 6])],
    map (\<lambda>(ticker, col). (ticker,
        map (spec_rs_momentum 2 col [Fin 1, Fin 1, Fin 1, Fin 2, Fin 1])
          [0..<length [Fin 1, Fin 1, Fin 1, Fin 2, Fin (1::real)]]))
      [(''AAA'', [Fin 2, Fin 4, Fin 3, Fin 6, Fin 6])]) =
   ([(''AAA'', [NaN, NaN, Fin 100, Fin (290 / 3), Fin (340 / 3)])],
    [(''AAA'', [NaN, NaN, NaN, Fin (2175 / 22), Fin (10200 / 97)])])"
proof -
  have h: "(1::nat) \<le> 2"
    "list_all (\<lambda>(ticker, col). length col = length [Fin 1, Fin 1, Fin 1, Fin 2, Fin 1])
       [(''AAA'', [Fin 2, Fin 4, Fin 3, Fin 6, Fin 6])]"
    by simp_all
  note e = engine_is_reference [OF h]
  have "(map (\<lambda>(ticker, col). (ticker,
        map (spec_rs_ratio 2 col [Fin 1, Fin 1, Fin 1, Fin 2, Fin 1])
          [0..<length [Fin 1, Fin 1, Fin 1, Fin 2, Fin (1::real)]]))
      [(''AAA'', [Fin 2, Fin 4, Fin 3, Fin 6, Fin 6])],
    map (\<lambda>(ticker, col). (ticker,
        map (spec_rs_momentum 2 col [Fin 1, Fin 1, Fin 1, Fin 2, Fin 1])
          [0..<length [Fin 1, Fin 1, Fin 1, Fin 2, Fin (1::real)]]))
      [(''AAA'', [Fin 2, Fin 4, Fin 3, Fin 6, Fin 6])]) =
   ([(''AAA'', [NaN, NaN, Fin 100, Fin (290 / 3), Fin (340 / 3)])],
    [(''AAA'', [NaN, NaN, NaN, Fin (2175 / 22), Fin (10200 / 97)])])"
    by (rule trans [OF e [symmetric] engine_example])
  with h show ?thesis by blast
qed

section \<open>The warm-up of the two indicators\<close>

lemma sum_list_pos_real:
  fixes ps :: "real list"
  assumes "ps \<noteq> []" and "\<forall>p\<in>set ps. 0 < p"
  shows "0 < sum_list ps"
  using assms
proof (induction ps)
  case Nil
  then show ?case by simp
next
  case (Cons p ps)
  have "0 \<le> sum_list ps" using Cons.prems(2) by (intro sum_list_nonneg) (simp add: less_imp_le)
  moreover have "0 < p" using Cons.prems(2) by simp
  ultimately show ?case by simp
qed

lemma weighted_sum_pos:
  assumes "\<forall>r\<in>set rs. 0 < r" and "rs \<noteq> []" and "1 \<le> w"
  shows "0 < sum_list (map2 (\<lambda>r k. r * real k) rs (arange1 w))"
proof -
  let ?ps = "map2 (\<lambda>r k. r * real k) rs (arange1 w)"
  have ne: "?ps \<noteq> []" using assms(2,3) by (cases rs) (simp_all add: arange1_def upt_rec [of 1])
  have "\<forall>p\<in>set ?ps. 0 < p"
  proof
    fix p assume "p \<in> set ?ps"
    then obtain r k where "(r, k) \<in> set (zip rs (arange1 w))" and p: "p = r * real k" by auto
    then have "r \<in> set rs" and "k \<in> set (arange1 w)" by (auto dest: set_zip_leftD set_zip_rightD)
    then have "0 < r" and "0 < k" using assms(1) by (auto simp: arange1_def)
    then show "0 < p" by (simp add: p)
  qed
  with ne show ?thesis by (rule sum_list_pos_real)
qed

lemma positive_fromD:
  assumes "positive_from k xs" and "i < length xs"
  shows "i < k \<Longrightarrow> xs ! i = NaN" and "k \<le> i \<Longrightarrow> isfinite (xs ! i) \<and> 0 < val (xs ! i)"
  using assms by (auto simp: positive_from_def split: if_splits)

lemma rolling_positive_from:
  assumes p: "positive_from k xs" and w: "1 \<le> w"
  shows "positive_from (k + (w - 1)) (rolling_apply w (wma_func w) xs)"
  unfolding positive_from_def length_rolling_apply
proof (intro allI impI)
  fix i assume i: "i < length xs"
  let ?win = "map ((!) xs) [i + 1 - w..<i + 1]"
  show "if i < k + (w - 1) then rolling_apply w (wma_func w) xs ! i = NaN
        else isfinite (rolling_apply w (wma_func w) xs ! i) \<and>
             0 < val (rolling_apply w (wma_func w) xs ! i)"
  proof (cases "i < k + (w - 1)")
    case True
    have "\<not> (w \<le> i + 1 \<and> (\<forall>j\<in>{i + 1 - w..<i + 1}. isfinite (xs ! j)))"
    proof
      assume a: "w \<le> i + 1 \<and> (\<forall>j\<in>{i + 1 - w..<i + 1}. isfinite (xs ! j))"
      then have "i + 1 - w \<in> {i + 1 - w..<i + 1}" using w by auto
      then have "isfinite (xs ! (i + 1 - w))" using a by blast
      moreover have "i + 1 - w < k" using True a w by linarith
      moreover have "i + 1 - w < length xs" using i w by linarith
      ultimately show False using positive_fromD(1) [OF p] by fastforce
    qed
    then show ?thesis using True unfolding rolling_apply_nth [OF i] by (simp only: if_False if_True)
  next
    case False
    then have wi: "w \<le> i + 1" and ki: "k \<le> i + 1 - w" using w by linarith+
    have fin: "\<forall>j\<in>{i + 1 - w..<i + 1}. isfinite (xs ! j) \<and> 0 < val (xs ! j)"
    proof
      fix j assume "j \<in> {i + 1 - w..<i + 1}"
      then have "k \<le> j" and "j < length xs" using ki i by auto
      then show "isfinite (xs ! j) \<and> 0 < val (xs ! j)" using positive_fromD(2) [OF p] by blast
    qed
    have win: "?win = map Fin (map (\<lambda>j. val (xs ! j)) [i + 1 - w..<i + 1])"
      unfolding map_map
    proof (rule map_cong [OF refl])
      fix j assume "j \<in> set [i + 1 - w..<i + 1]"
      then have "isfinite (xs ! j)" using fin by simp
      then show "xs ! j = (Fin \<circ> (\<lambda>j. val (xs ! j))) j" by (simp add: isfinite_conv [symmetric])
    qed
    have pos: "0 < sum_list (map2 (\<lambda>r k. r * real k) (map (\<lambda>j. val (xs ! j)) [i + 1 - w..<i + 1])
                 (arange1 w))"
    proof (rule weighted_sum_pos [OF _ _ w])
      show "\<forall>r\<in>set (map (\<lambda>j. val (xs ! j)) [i + 1 - w..<i + 1]). 0 < r" using fin by simp
      show "map (\<lambda>j. val (xs ! j)) [i + 1 - w..<i + 1] \<noteq> []" using wi w by simp
    qed
    have "rolling_apply w (wma_func w) xs ! i = wma_func w ?win"
      unfolding rolling_apply_nth [OF i] using wi fin by simp
    also have "\<dots> = Fin (sum_list (map2 (\<lambda>r k. r * real k)
          (map (\<lambda>j. val (xs ! j)) [i + 1 - w..<i + 1]) (arange1 w)) / real (sum_list (arange1 w)))"
      unfolding win by (rule wma_func_Fin [OF w])
    finally show ?thesis
      using False pos sum_list_arange1_pos [OF w] by simp
  qed
qed

lemma series_div_positive_from:
  assumes "positive_from a xs" and "positive_from b ys" and "length xs = length ys"
  shows "positive_from (max a b) (series_div xs ys)"
  unfolding positive_from_def
proof (intro allI impI)
  fix i assume "i < length (series_div xs ys)"
  then have i: "i < length xs" "i < length ys" by (simp_all add: series_div_def)
  have q: "series_div xs ys ! i = fdiv (xs ! i) (ys ! i)" using i by (simp add: series_div_def)
  show "if i < max a b then series_div xs ys ! i = NaN
        else isfinite (series_div xs ys ! i) \<and> 0 < val (series_div xs ys ! i)"
  proof (cases "i < max a b")
    case True
    then have "i < a \<or> i < b" by (simp add: less_max_iff_disj)
    then have "xs ! i = NaN \<or> ys ! i = NaN"
      using positive_fromD(1) [OF assms(1) i(1)] positive_fromD(1) [OF assms(2) i(2)] by blast
    then show ?thesis using True by (auto simp: q fdiv_NaN_right)
  next
    case False
    then have "a \<le> i" and "b \<le> i" by simp_all
    then have "isfinite (xs ! i) \<and> 0 < val (xs ! i)" "isfinite (ys ! i) \<and> 0 < val (ys ! i)"
      using positive_fromD(2) [OF assms(1) i(1)] positive_fromD(2) [OF assms(2) i(2)] by blast+
    then show ?thesis using False by (cases "xs ! i"; cases "ys ! i") (simp_all add: q)
  qed
qed

lemma series_scale_positive_from:
  assumes "positive_from k xs" and "0 < c"
  shows "positive_from k (series_scale xs c)"
  unfolding positive_from_def
proof (intro allI impI)
  fix i assume "i < length (series_scale xs c)"
  then have i: "i < length xs" by (simp add: series_scale_def)
  show "if i < k then series_scale xs c ! i = NaN
        else isfinite (series_scale xs c ! i) \<and> 0 < val (series_scale xs c ! i)"
  proof (cases "i < k")
    case True
    then have "xs ! i = NaN" by (rule positive_fromD(1) [OF assms(1) i])
    then show ?thesis using True i by (simp add: series_scale_def)
  next
    case False
    then have "k \<le> i" by simp
    then have "isfinite (xs ! i) \<and> 0 < val (xs ! i)" by (rule positive_fromD(2) [OF assms(1) i])
    then show ?thesis using False i assms(2) by (cases "xs ! i") (simp_all add: series_scale_def)
  qed
qed

lemma rs_col_positive_from:
  assumes "valid_prices col benchmark"
  shows "positive_from 0 (rs_col col benchmark)"
  unfolding positive_from_def
proof (intro allI impI)
  fix i assume "i < length (rs_col col benchmark)"
  then have i: "i < length col" "i < length benchmark" by (simp_all add: rs_col_def series_div_def)
  then have "isfinite (col ! i) \<and> 0 < val (col ! i)" "isfinite (benchmark ! i) \<and> 0 < val (benchmark ! i)"
    using assms by (auto simp: valid_prices_def)
  then show "if i < 0 then rs_col col benchmark ! i = NaN
        else isfinite (rs_col col benchmark ! i) \<and> 0 < val (rs_col col benchmark ! i)"
    using i by (cases "col ! i"; cases "benchmark ! i") (simp_all add: rs_col_def series_div_def)
qed

lemma rs_ratio_positive_from:
  assumes v: "valid_prices col benchmark" and w: "1 \<le> w"
  shows "positive_from (2 * (w - 1)) (rs_ratio_col col benchmark w)"
proof -
  have len: "length col = length benchmark" using v by (simp add: valid_prices_def)
  have a: "positive_from 0 (rs_col col benchmark)" by (rule rs_col_positive_from [OF v])
  have b: "positive_from (w - 1) (wma_rs_col col benchmark w)"
    unfolding wma_rs_col_def using rolling_positive_from [OF a w] by simp
  have "positive_from (w - 1) (series_div (rs_col col benchmark) (wma_rs_col col benchmark w))"
    using series_div_positive_from [OF a b] by (simp add: wma_rs_col_def length_rolling_apply)
  then have "positive_from (w - 1 + (w - 1))
      (rolling_apply w (wma_func w) (series_div (rs_col col benchmark) (wma_rs_col col benchmark w)))"
    by (rule rolling_positive_from [OF _ w])
  then show ?thesis
    unfolding rs_ratio_col_def using series_scale_positive_from [of _ _ 100]
    by (simp add: mult_2)
qed

lemma rs_momentum_positive_from:
  assumes v: "valid_prices col benchmark" and w: "1 \<le> w"
  shows "positive_from (3 * (w - 1)) (rs_momentum_col col benchmark w)"
proof -
  let ?r = "rs_ratio_col col benchmark w"
  have a: "positive_from (2 * (w - 1)) ?r" by (rule rs_ratio_positive_from [OF v w])
  have b: "positive_from (2 * (w - 1) + (w - 1)) (rolling_apply w (wma_func w) ?r)"
    by (rule rolling_positive_from [OF a w])
  have "positive_from (max (2 * (w - 1)) (2 * (w - 1) + (w - 1)))
          (series_div ?r (rolling_apply w (wma_func w) ?r))"
    by (rule series_div_positive_from [OF a b]) (simp add: length_rolling_apply)
  moreover have "max (2 * (w - 1)) (2 * (w - 1) + (w - 1)) = 3 * (w - 1)" by simp
  ultimately show ?thesis
    unfolding rs_momentum_col_def Let_def using series_scale_positive_from [of _ _ 100]
    by simp
qed

lemma ones_ratio:
  "rs_ratio_col [Fin 1, Fin 1, Fin 1, Fin 1] [Fin 1, Fin 1, Fin 1, Fin 1] 2 =
   [NaN, NaN, Fin 100, Fin 100]"
  by (simp add: rs_ratio_col_def
      rs_col_def wma_rs_col_def series_div_def series_scale_def rolling_apply_def
      prep_values_def window_at_def wma_func_def series_sum_def arange1_def Let_def upt_rec)

lemma ones_momentum:
  "rs_momentum_col [Fin 1, Fin 1, Fin 1, Fin 1] [Fin 1, Fin 1, Fin 1, Fin 1] 2 =
   [NaN, NaN, NaN, Fin 100]"
  unfolding rs_momentum_col_def Let_def ones_ratio
  by (simp add: series_div_def series_scale_def rolling_apply_def
      prep_values_def window_at_def wma_func_def series_sum_def arange1_def Let_def upt_rec)

lemma valid_prices_ones:
  "valid_prices [Fin 1, Fin 1, Fin 1, Fin 1] [Fin 1, Fin 1, Fin 1, Fin 1]"
  by (simp add: valid_prices_def)

text \<open>
  C2, as the code has it. For a ticker whose prices and benchmark prices are defined,
  finite and positive at every date, and a window of at least 1: RS-Ratio is undefined
  before the index \<open>2 * (w - 1)\<close> and a finite number from there on; RS-Momentum, which
  smooths RS-Ratio once more, is undefined before the index \<open>3 * (w - 1)\<close> and a finite
  number from there on. This holds for any number of dates.
\<close>

theorem warm_up_boundaries:
  assumes "valid_prices col benchmark" and "1 \<le> w" and "t < length benchmark"
  shows "(t < 2 * (w - 1) \<longrightarrow> rs_ratio_col col benchmark w ! t = NaN) \<and>
         (2 * (w - 1) \<le> t \<longrightarrow> isfinite (rs_ratio_col col benchmark w ! t)) \<and>
         (t < 3 * (w - 1) \<longrightarrow> rs_momentum_col col benchmark w ! t = NaN) \<and>
         (3 * (w - 1) \<le> t \<longrightarrow> isfinite (rs_momentum_col col benchmark w ! t))"
proof -
  have len: "length col = length benchmark" using assms(1) by (simp add: valid_prices_def)
  have r: "t < length (rs_ratio_col col benchmark w)"
    using assms(3) by (simp add: length_rs_ratio_col [OF len])
  have m: "t < length (rs_momentum_col col benchmark w)"
    using assms(3) by (simp add: length_rs_momentum_col [OF len])
  show ?thesis
    using positive_fromD [OF rs_ratio_positive_from [OF assms(1,2)] r]
      positive_fromD [OF rs_momentum_positive_from [OF assms(1,2)] m]
    by blast
qed

theorem warm_up_boundaries_witness:
  "valid_prices [Fin 1, Fin 1, Fin 1, Fin 1] [Fin 1, Fin 1, Fin 1, Fin 1] \<and>
   (1::nat) \<le> 2 \<and> 3 < length [Fin 1, Fin 1, Fin 1, Fin (1::real)] \<and>
   rs_ratio_col [Fin 1, Fin 1, Fin 1, Fin 1] [Fin 1, Fin 1, Fin 1, Fin 1] 2 ! 1 = NaN \<and>
   isfinite (rs_ratio_col [Fin 1, Fin 1, Fin 1, Fin 1] [Fin 1, Fin 1, Fin 1, Fin 1] 2 ! 3) \<and>
   isfinite (rs_momentum_col [Fin 1, Fin 1, Fin 1, Fin 1] [Fin 1, Fin 1, Fin 1, Fin 1] 2 ! 3)"
  using warm_up_boundaries [OF valid_prices_ones, of 2 3]
    warm_up_boundaries [OF valid_prices_ones, of 2 1] valid_prices_ones
  by simp

text \<open>
  The claim as stated fails for RS-Momentum: with four valid points and a window of 2,
  the index \<open>2 * (2 - 1) = 2\<close> is past the claimed warm-up, and RS-Momentum is still
  undefined there.
\<close>

theorem warm_up_momentum_counterexample:
  "valid_prices [Fin 1, Fin 1, Fin 1, Fin 1] [Fin 1, Fin 1, Fin 1, Fin 1] \<and>
   2 * 2 \<le> length [Fin 1, Fin 1, Fin 1, Fin (1::real)] \<and>
   2 * (2 - 1) \<le> (2::nat) \<and>
   isnan (rs_momentum_col [Fin 1, Fin 1, Fin 1, Fin 1] [Fin 1, Fin 1, Fin 1, Fin 1] 2 ! 2)"
proof -
  have "rs_momentum_col [Fin 1, Fin 1, Fin 1, Fin 1] [Fin 1, Fin 1, Fin 1, Fin 1] 2 =
        [NaN, NaN, NaN, Fin 100]"
    by (rule ones_momentum)
  then show ?thesis using valid_prices_ones by simp
qed

section \<open>Rising prices against a flat benchmark\<close>

lemma spec_lwma_Fin:
  assumes "w \<le> t + 1" and "\<And>i. i \<in> {1..w} \<Longrightarrow> x (t + i - w) = Fin (g (t + i - w))"
  shows "spec_lwma w x t = Fin ((\<Sum>i = 1..w. real i * g (t + i - w)) / (\<Sum>i = 1..w. real i))"
proof -
  have c: "\<not> (t + 1 < w \<or> (\<exists>i\<in>{1..w}. \<not> isfinite (x (t + i - w))))"
    using assms by auto
  have "(\<Sum>i = 1..w. real i * val (x (t + i - w))) = (\<Sum>i = 1..w. real i * g (t + i - w))"
    by (intro sum.cong refl) (simp add: assms(2))
  then show ?thesis unfolding spec_lwma_def by (simp only: c if_False)
qed

lemma upt_eval: "[i..<j] = (if i < j then i # [Suc i..<j] else [])"
  by (simp add: upt_rec)

lemma sum_1_14: "(\<Sum>i = 1..14. f i) = sum_list (map f [1..<15])" for f :: "nat \<Rightarrow> real"
proof -
  have "{1..14::nat} = set [1..<15]" by auto
  then show ?thesis by (simp only: interv_sum_list_conv_sum_set_nat)
qed

lemma sum_weights_14: "(\<Sum>i = 1..14. real i) = 105"
  unfolding sum_1_14 by (simp add: upt_eval)

lemma raw_rising:
  assumes "s < 40"
  shows "spec_raw_ratio rising_prices flat_benchmark s = Fin ((100 + real s) / 100)"
proof -
  have "rising_prices ! s = Fin (real (100 + s))"
    using assms unfolding rising_prices_def by (subst nth_map) (simp_all del: upt_rec_numeral)
  moreover have "flat_benchmark ! s = Fin 100"
    using assms by (simp add: flat_benchmark_def)
  ultimately show ?thesis by (simp add: spec_raw_ratio_def)
qed

lemma lwma_raw_rising:
  assumes "13 \<le> s" and "s < 40"
  shows "spec_lwma 14 (spec_raw_ratio rising_prices flat_benchmark) s = Fin ((287 + 3 * real s) / 300)"
proof -
  have "spec_lwma 14 (spec_raw_ratio rising_prices flat_benchmark) s =
        Fin ((\<Sum>i = 1..14. real i * ((100 + real (s + i - 14)) / 100)) / (\<Sum>i = 1..14. real i))"
  proof (rule spec_lwma_Fin [where g = "\<lambda>u. (100 + real u) / 100"])
    show "14 \<le> s + 1" using assms by simp
    fix i :: nat assume "i \<in> {1..14}"
    then have "s + i - 14 < 40" using assms by auto
    then show "spec_raw_ratio rising_prices flat_benchmark (s + i - 14) =
               Fin ((100 + real (s + i - 14)) / 100)"
      by (rule raw_rising)
  qed
  also have "(\<Sum>i = 1..14. real i * ((100 + real (s + i - 14)) / 100)) =
             (\<Sum>i = 1..14. real i * ((86 + real s + real i) / 100))"
    using assms by (intro sum.cong refl) (simp add: of_nat_diff)
  also have "\<dots> = (105 * (86 + real s) + 1015) / 100"
    unfolding sum_1_14 by (simp add: upt_eval field_simps)
  finally show ?thesis unfolding sum_weights_14 by (simp add: field_simps)
qed


lemma quotient_rising:
  assumes "13 \<le> s" and "s < 40"
  shows "fdiv (spec_raw_ratio rising_prices flat_benchmark s)
              (spec_lwma 14 (spec_raw_ratio rising_prices flat_benchmark) s) =
         Fin (1 + 13 / (287 + 3 * real s))"
proof -
  have "287 + 3 * real s \<noteq> 0"
    by (metis add_pos_nonneg less_numeral_extra(3) mult_nonneg_nonneg of_nat_0_le_iff
        zero_less_numeral zero_le_numeral)
  then show ?thesis
    unfolding raw_rising [OF assms(2)] lwma_raw_rising [OF assms]
    by (simp add: field_simps)
qed

lemma rs_ratio_rising:
  assumes "26 \<le> t" and "t < 40"
  shows "rs_ratio_col rising_prices flat_benchmark 14 ! t =
         Fin ((\<Sum>i = 1..14. real i * (1 + 13 / (287 + 3 * real (t + i - 14)))) / 105 * 100)"
proof -
  have len: "length rising_prices = length flat_benchmark"
    by (simp add: rising_prices_def flat_benchmark_def)
  have t: "t < length flat_benchmark" using assms by (simp add: flat_benchmark_def)
  have "spec_lwma 14 (\<lambda>s. fdiv (spec_raw_ratio rising_prices flat_benchmark s)
              (spec_lwma 14 (spec_raw_ratio rising_prices flat_benchmark) s)) t =
        Fin ((\<Sum>i = 1..14. real i * (1 + 13 / (287 + 3 * real (t + i - 14)))) /
             (\<Sum>i = 1..14. real i))"
  proof (rule spec_lwma_Fin [where g = "\<lambda>u. 1 + 13 / (287 + 3 * real u)"])
    show "14 \<le> t + 1" using assms by simp
    fix i :: nat assume "i \<in> {1..14}"
    then have "13 \<le> t + i - 14" and "t + i - 14 < 40" using assms by auto
    then show "fdiv (spec_raw_ratio rising_prices flat_benchmark (t + i - 14))
              (spec_lwma 14 (spec_raw_ratio rising_prices flat_benchmark) (t + i - 14)) =
             Fin (1 + 13 / (287 + 3 * real (t + i - 14)))"
      by (rule quotient_rising)
  qed
  then show ?thesis
    unfolding rs_ratio_col_spec [OF _ len t, of 14, simplified] spec_rs_ratio_def sum_weights_14
    by simp
qed

lemma rs_ratio_rising_step:
  assumes "26 \<le> t" and "t < 39"
  shows "fless (rs_ratio_col rising_prices flat_benchmark 14 ! (t + 1))
               (rs_ratio_col rising_prices flat_benchmark 14 ! t)"
proof -
  have "(\<Sum>i = 1..14. real i * (1 + 13 / (287 + 3 * real (t + 1 + i - 14)))) <
        (\<Sum>i = 1..14. real i * (1 + 13 / (287 + 3 * real (t + i - 14))))"
  proof (rule sum_strict_mono)
    show "finite {1..14::nat}" by simp
    show "{1..14::nat} \<noteq> {}" by simp
    fix i :: nat assume i: "i \<in> {1..14}"
    then have e: "t + 1 + i - 14 = Suc (t + i - 14)" using assms by auto
    have "13 / (287 + 3 * real (Suc (t + i - 14))) < 13 / (287 + 3 * real (t + i - 14))"
      by (intro divide_strict_left_mono) (auto intro: add_pos_nonneg mult_pos_pos)
    then show "real i * (1 + 13 / (287 + 3 * real (t + 1 + i - 14))) <
               real i * (1 + 13 / (287 + 3 * real (t + i - 14)))"
      unfolding e using i by simp
  qed
  then show ?thesis
    using assms by (simp add: rs_ratio_rising)
qed

lemma valid_prices_rising: "valid_prices rising_prices flat_benchmark"
  by (auto simp: valid_prices_def rising_prices_def flat_benchmark_def)

lemma rs_ratio_rising_positive_from:
  "positive_from 26 (rs_ratio_col rising_prices flat_benchmark 14)"
  using rs_ratio_positive_from [OF valid_prices_rising, of 14] by simp

lemma length_rs_ratio_rising: "length (rs_ratio_col rising_prices flat_benchmark 14) = 40"
  using length_rs_ratio_col [of rising_prices flat_benchmark 14]
  by (simp add: rising_prices_def flat_benchmark_def)

lemma fless_asym: "fless a b \<Longrightarrow> \<not> fless b a"
  by (cases a; cases b) simp_all

text \<open>
  C9, as the code has it. For the prices 100, 101, ..., 139 against the benchmark that
  stays at 100, with the window 14, the RS-Ratio of the engine is undefined before the
  index 26, a finite number from 26 to 39, and strictly decreasing from each of these
  dates to the next: the prices rise by a constant amount, so the ratio grows by less
  and less relative to its own weighted average.
\<close>

theorem rising_prices_rs_ratio_decreases:
  "fst (calculate_rrg_components_improved [(''A'', rising_prices)] flat_benchmark 14) =
     [(''A'', rs_ratio_col rising_prices flat_benchmark 14)] \<and>
   (\<forall>t<26. rs_ratio_col rising_prices flat_benchmark 14 ! t = NaN) \<and>
   (\<forall>t. 26 \<le> t \<and> t < 40 \<longrightarrow> isfinite (rs_ratio_col rising_prices flat_benchmark 14 ! t)) \<and>
   (\<forall>t. 26 \<le> t \<and> t < 39 \<longrightarrow>
      fless (rs_ratio_col rising_prices flat_benchmark 14 ! (t + 1))
            (rs_ratio_col rising_prices flat_benchmark 14 ! t))"
proof (intro conjI allI impI)
  show "fst (calculate_rrg_components_improved [(''A'', rising_prices)] flat_benchmark 14) =
     [(''A'', rs_ratio_col rising_prices flat_benchmark 14)]"
    by (simp add: calculate_rrg_components_improved_def)
next
  fix t :: nat assume "t < 26"
  moreover from this have "t < length (rs_ratio_col rising_prices flat_benchmark 14)"
    unfolding length_rs_ratio_rising by simp
  ultimately show "rs_ratio_col rising_prices flat_benchmark 14 ! t = NaN"
    using positive_fromD(1) [OF rs_ratio_rising_positive_from] by blast
next
  fix t :: nat assume h: "26 \<le> t \<and> t < 40"
  then have "t < length (rs_ratio_col rising_prices flat_benchmark 14)"
    unfolding length_rs_ratio_rising by simp
  then show "isfinite (rs_ratio_col rising_prices flat_benchmark 14 ! t)"
    using positive_fromD(2) [OF rs_ratio_rising_positive_from] h by blast
next
  fix t :: nat assume h: "26 \<le> t \<and> t < 39"
  show "fless (rs_ratio_col rising_prices flat_benchmark 14 ! (t + 1))
          (rs_ratio_col rising_prices flat_benchmark 14 ! t)"
    by (rule rs_ratio_rising_step [OF conjunct1 [OF h] conjunct2 [OF h]])
qed

theorem rising_prices_rs_ratio_decreases_witness:
  "rs_ratio_col rising_prices flat_benchmark 14 ! 25 = NaN \<and>
   isfinite (rs_ratio_col rising_prices flat_benchmark 14 ! 26) \<and>
   fless (rs_ratio_col rising_prices flat_benchmark 14 ! 27)
         (rs_ratio_col rising_prices flat_benchmark 14 ! 26)"
proof -
  note t = rising_prices_rs_ratio_decreases
  have n: "(25::nat) < 26" "(26::nat) \<le> 26 \<and> (26::nat) < 40" "(26::nat) \<le> 26 \<and> (26::nat) < 39"
    by simp_all
  have e: "(26::nat) + 1 = 27" by simp
  have a: "rs_ratio_col rising_prices flat_benchmark 14 ! 25 = NaN"
    using t n(1) by blast
  have b: "isfinite (rs_ratio_col rising_prices flat_benchmark 14 ! 26)"
    using t n(2) by blast
  have "fless (rs_ratio_col rising_prices flat_benchmark 14 ! (26 + 1))
              (rs_ratio_col rising_prices flat_benchmark 14 ! 26)"
    using t n(3) by blast
  then have c: "fless (rs_ratio_col rising_prices flat_benchmark 14 ! 27)
              (rs_ratio_col rising_prices flat_benchmark 14 ! 26)"
    unfolding e .
  show ?thesis using a b c by blast
qed

text \<open>
  The claim as stated fails at the first two defined dates: RS-Ratio at the index 27 is
  not above RS-Ratio at the index 26.
\<close>

theorem rising_prices_rs_ratio_counterexample:
  "isfinite (rs_ratio_col rising_prices flat_benchmark 14 ! 26) \<and>
   isfinite (rs_ratio_col rising_prices flat_benchmark 14 ! 27) \<and>
   \<not> fless (rs_ratio_col rising_prices flat_benchmark 14 ! 26)
           (rs_ratio_col rising_prices flat_benchmark 14 ! 27)"
proof -
  have e: "(26::nat) + 1 = 27" by simp
  have "fless (rs_ratio_col rising_prices flat_benchmark 14 ! (26 + 1))
              (rs_ratio_col rising_prices flat_benchmark 14 ! 26)"
    by (rule rs_ratio_rising_step) simp_all
  then have "fless (rs_ratio_col rising_prices flat_benchmark 14 ! 27)
              (rs_ratio_col rising_prices flat_benchmark 14 ! 26)"
    unfolding e .
  then have c: "\<not> fless (rs_ratio_col rising_prices flat_benchmark 14 ! 26)
                    (rs_ratio_col rising_prices flat_benchmark 14 ! 27)"
    by (rule fless_asym)
  have a: "isfinite (rs_ratio_col rising_prices flat_benchmark 14 ! 26)"
    by (subst rs_ratio_rising) simp_all
  have b: "isfinite (rs_ratio_col rising_prices flat_benchmark 14 ! 27)"
    by (subst rs_ratio_rising) simp_all
  show ?thesis using a b c by blast
qed

end
